theory Spec2Isabelle
  imports Complex_Main "HOL-Library.Word"
begin

unbundle bit_operations_syntax

section \<open>Machine types, constants and faults\<close>

text \<open>
  The development embeds \<^verbatim>\<open>src/Open3D/Core/Hashmap/HashmapCUDA.h\<close>: the slab hash
  table whose requests are served by warps of 32 lanes running in lockstep.  Bytes are
  \<open>uint8_t\<close>, internal pointers (handles of pair records and of slabs) are the 32-bit
  \<open>ptr_t\<close>, the hash accumulator is a 64-bit word.  Sizes and indices are natural
  numbers; where the code computes them in \<open>uint32_t\<close> and the wrap-around can be
  reached, the reduction modulo \<open>2 ^ 32\<close> is written out.
\<close>

type_synonym uint8_t = "8 word"
type_synonym ptr_t = "32 word"
type_synonym uint64_t = "64 word"

text \<open>\<^verbatim>\<open>#define MAX_KEY_BYTESIZE 32\<close> (line 37).\<close>

definition MAX_KEY_BYTESIZE :: nat where
  "MAX_KEY_BYTESIZE = 32"

text \<open>
  Modelled from the spec: the constants of \<^verbatim>\<open>InternalNodeManager.h\<close> and
  \<^verbatim>\<open>InternalMemoryManager.h\<close>, which are included by the source but are not among
  the files.  The group width is 32 (section 4.4; the source's
  \<^verbatim>\<open>static_assert(sizeof(Slab) == WARP_WIDTH * sizeof(ptr_t))\<close> on a slab of 31 + 1
  units forces it), lane 31 holds the next pointer (the comment at line 463), the
  sentinels EMPTY and EMPTY_SLAB are the all-ones word (the head slabs are created by
  \<^verbatim>\<open>cudaMemset(..., 0xFF, ...)\<close> and section 3 says they start EMPTY), and the
  head slab is addressed by a reserved handle different from them.
\<close>

definition WARP_WIDTH :: nat where
  "WARP_WIDTH = 32"

definition NEXT_SLAB_PTR_LANE :: nat where
  "NEXT_SLAB_PTR_LANE = 31"


definition EMPTY_PAIR_PTR :: ptr_t where
  "EMPTY_PAIR_PTR = 0xFFFFFFFF"

definition EMPTY_SLAB_PTR :: ptr_t where
  "EMPTY_SLAB_PTR = 0xFFFFFFFF"

definition HEAD_SLAB_PTR :: ptr_t where
  "HEAD_SLAB_PTR = 0xFFFFFFFE"

definition NULL_ITERATOR :: ptr_t where
  "NULL_ITERATOR = 0xFFFFFFFF"

text \<open>
  A 32-bit lane mask (the result of \<^verbatim>\<open>__ballot_sync\<close>, \<^verbatim>\<open>ACTIVE_LANES_MASK\<close>,
  \<^verbatim>\<open>PAIR_PTR_LANES_MASK\<close>) is the list of its 32 bits, lane 0 first.
\<close>

type_synonym lane_mask = "bool list"

definition ACTIVE_LANES_MASK :: lane_mask where
  "ACTIVE_LANES_MASK = replicate 32 True"

definition PAIR_PTR_LANES_MASK :: lane_mask where
  "PAIR_PTR_LANES_MASK = replicate 31 True @ [False]"

text \<open>
  What is undefined behaviour in the source is a fault of the model: every operation
  returns \<open>fault + result\<close> and stops at the first fault.
\<close>

datatype fault =
    DivisionByZero        \<comment> \<open>\<^verbatim>\<open>hash % num_buckets_\<close> with no bucket\<close>
  | KeyBufferOverflow     \<comment> \<open>a write past \<^verbatim>\<open>src_key[MAX_KEY_BYTESIZE]\<close>\<close>
  | OutOfBoundsRead       \<comment> \<open>a read past the end of a key, a record or an input array\<close>
  | WildPointerRead       \<comment> \<open>a read through a pointer that was never initialised\<close>
  | InvalidPairPtr        \<comment> \<open>a handle that names no record of the pair store\<close>
  | InvalidSlabPtr        \<comment> \<open>a handle or bucket index that names no slab\<close>

section \<open>Warp primitives\<close>

text \<open>\<^verbatim>\<open>__ballot_sync(mask, pred)\<close>: bit \<open>i\<close> is lane \<open>i\<close>'s predicate, for the lanes of the mask.\<close>

definition ballot_sync :: "lane_mask \<Rightarrow> bool list \<Rightarrow> lane_mask" where
  "ballot_sync m preds = map2 (\<and>) m preds"

text \<open>A mask as the condition of \<^verbatim>\<open>while\<close>: it is not zero.\<close>

definition nonzero :: "lane_mask \<Rightarrow> bool" where
  "nonzero m = (True \<in> set m)"

text \<open>\<^verbatim>\<open>__ffs\<close>: the position of the lowest set bit counted from 1, and 0 when no bit is set.\<close>

definition ffs :: "lane_mask \<Rightarrow> nat" where
  "ffs m = (if True \<in> set m then Suc (length (takeWhile Not m)) else 0)"

section \<open>The hash function\<close>

text \<open>
  \<^verbatim>\<open>((int32_t*)key_ptr)[i]\<close>: the four bytes of chunk \<open>i\<close>, least significant first
  (the byte order of the device and of its host).
\<close>

definition chunk :: "uint8_t list \<Rightarrow> nat \<Rightarrow> uint8_t list" where
  "chunk p i = take 4 (drop (4 * i) p)"

definition int32_of :: "uint8_t list \<Rightarrow> 32 word" where
  "int32_of bs =
     ucast (bs ! 0) OR push_bit 8 (ucast (bs ! 1)) OR
     push_bit 16 (ucast (bs ! 2)) OR push_bit 24 (ucast (bs ! 3))"

record DefaultHash =
  key_size :: nat

text \<open>
  \<^verbatim>\<open>DefaultHash::operator()\<close> (lines 67-77).  The loop variable runs from \<open>i\<close> to
  \<open>chunks\<close>; \<^verbatim>\<open>hash ^= cast_key_ptr[i]\<close> converts the \<^verbatim>\<open>int32_t\<close> to 64 bits with its
  sign (\<open>scast\<close>), the multiplication wraps at 64 bits.  Chunk \<open>i\<close> is read from the
  bytes \<open>4 * i\<close> to \<open>4 * i + 3\<close> of the key; a key that ends before them is read past
  its end.
\<close>

function DefaultHash_loop :: "uint8_t list \<Rightarrow> nat \<Rightarrow> nat \<Rightarrow> uint64_t \<Rightarrow> fault + uint64_t" where
  "DefaultHash_loop key_ptr chunks i hash =
     (if i < chunks then
        (if length key_ptr < 4 * i + 4 then Inl OutOfBoundsRead
         else DefaultHash_loop key_ptr chunks (i + 1)
                ((hash XOR scast (int32_of (chunk key_ptr i))) * 1099511628211))
      else Inr hash)"
  by pat_completeness auto
termination
  by (relation "measure (\<lambda>(k, c, i, h). c - i)") auto

declare DefaultHash_loop.simps [simp del]

definition DefaultHash_call :: "DefaultHash \<Rightarrow> uint8_t list \<Rightarrow> fault + uint64_t" where
  "DefaultHash_call h key_ptr =
     DefaultHash_loop key_ptr (key_size h div 4) 0 14695981039346656037"

section \<open>The allocators\<close>

text \<open>
  Modelled from the spec: the Pair Store Allocator (\<^verbatim>\<open>InternalMemoryManagerContext\<close>,
  section 4.3), whose source is not among the files.  It owns a pool of records of
  \<open>keySize + valueSize\<close> bytes, each named by a handle; \<open>pair_data\<close> is the memory of
  the pool by handle and \<open>pair_free\<close> the free list.  \<open>Allocate\<close> claims a free record
  and copies nothing; with no free record it returns the sentinel.  \<open>Free\<close> returns a
  handle to the free list.  \<open>extract_ptr\<close> converts a handle to the record it names;
  no record is named by a handle outside the pool.
\<close>

record InternalMemoryManagerContext =
  pair_data :: "ptr_t \<rightharpoonup> uint8_t list"
  pair_free :: "ptr_t list"

definition Allocate :: "InternalMemoryManagerContext \<Rightarrow> ptr_t \<times> InternalMemoryManagerContext" where
  "Allocate m =
     (case pair_free m of
        [] \<Rightarrow> (EMPTY_PAIR_PTR, m)
      | p # ps \<Rightarrow> (p, m\<lparr>pair_free := ps\<rparr>))"

definition Free :: "ptr_t \<Rightarrow> InternalMemoryManagerContext \<Rightarrow> InternalMemoryManagerContext" where
  "Free p m = m\<lparr>pair_free := p # pair_free m\<rparr>"

definition extract_ptr :: "InternalMemoryManagerContext \<Rightarrow> ptr_t \<Rightarrow> uint8_t list option" where
  "extract_ptr m p = pair_data m p"

text \<open>
  Modelled from the spec: the Slab Allocator (\<^verbatim>\<open>InternalNodeManagerContext\<close>,
  section 4.2), whose source is not among the files.  \<open>slab_pool\<close> lists the handles
  of the pool, \<open>slab_data\<close> is the memory of its slabs (32 units each) and
  \<open>slab_free\<close> the handles that are free.  \<open>WarpAllocate\<close> claims a free slab for the
  whole warp, and returns the sentinel when none is free; \<open>FreeUntouched\<close> returns a
  slab without clearing it; \<open>CountSlabs\<close> is the number of slabs that are allocated,
  the sum of what \<^verbatim>\<open>CountSlabsPerSuperblock\<close> reports.
\<close>

record InternalNodeManagerContext =
  slab_pool :: "ptr_t list"
  slab_data :: "ptr_t \<rightharpoonup> ptr_t list"
  slab_free :: "ptr_t list"

definition WarpAllocate :: "InternalNodeManagerContext \<Rightarrow> ptr_t \<times> InternalNodeManagerContext" where
  "WarpAllocate m =
     (case slab_free m of
        [] \<Rightarrow> (EMPTY_SLAB_PTR, m)
      | p # ps \<Rightarrow> (p, m\<lparr>slab_free := ps\<rparr>))"

definition FreeUntouched :: "ptr_t \<Rightarrow> InternalNodeManagerContext \<Rightarrow> InternalNodeManagerContext" where
  "FreeUntouched p m = m\<lparr>slab_free := p # slab_free m\<rparr>"

definition CountSlabs :: "InternalNodeManagerContext \<Rightarrow> nat" where
  "CountSlabs m = length (filter (\<lambda>p. p \<notin> set (slab_free m)) (slab_pool m))"

section \<open>The context\<close>

text \<open>
  \<^verbatim>\<open>class Slab\<close> (lines 58-62) is addressed by the code as 32 units of \<^verbatim>\<open>ptr_t\<close>
  (\<^verbatim>\<open>get_unit_ptr_from_list_head\<close>, lines 126-130): units 0 to 30 are
  \<^verbatim>\<open>kv_pair_ptrs\<close>, unit 31 is \<^verbatim>\<open>next_slab_ptr\<close>.  \<^verbatim>\<open>HashmapCUDAContext\<close>
  (lines 145-153) holds the sizes, the hash function and the pointers to the device
  memory; the model keeps the memory they point to in the same record.
\<close>

type_synonym Slab = "ptr_t list"

record HashmapCUDAContext =
  num_buckets :: nat
  dsize_key :: nat
  dsize_value :: nat
  hash_fn :: DefaultHash
  bucket_list_head :: "Slab list"
  slab_list_allocator_ctx :: InternalNodeManagerContext
  pair_allocator_ctx :: InternalMemoryManagerContext

text \<open>
  \<^verbatim>\<open>ComputeBucket\<close> (lines 356-359): the hash is computed first, then its remainder
  by the bucket count, which is below \<open>2 ^ 32\<close> and so survives the conversion to
  \<^verbatim>\<open>uint32_t\<close>.  The remainder by zero is undefined.
\<close>

definition ComputeBucket :: "HashmapCUDAContext \<Rightarrow> uint8_t list \<Rightarrow> fault + nat" where
  "ComputeBucket c key =
     (case DefaultHash_call (hash_fn c) key of
        Inl e \<Rightarrow> Inl e
      | Inr hash \<Rightarrow>
          if num_buckets c = 0 then Inl DivisionByZero
          else Inr (unat hash mod num_buckets c))"

text \<open>
  The accumulation as the specification words it (section 4.1), written without the
  functions of the code.  The key is cut into words of four bytes; the value of a word
  is the number its bytes spell, the first byte the least significant.  The hash starts
  from the offset basis and, for each word, XORs the word in and multiplies by the prime,
  in 64 bits.
\<close>

definition word_of_bytes :: "uint8_t list \<Rightarrow> 32 word" where
  "word_of_bytes bs = word_of_nat (foldr (\<lambda>b n. unat b + 256 * n) bs 0)"

fun key_words :: "nat \<Rightarrow> uint8_t list \<Rightarrow> 32 word list" where
  "key_words 0 key = []"
| "key_words (Suc n) key = word_of_bytes (take 4 key) # key_words n (drop 4 key)"

definition fnv_accumulate :: "32 word list \<Rightarrow> uint64_t" where
  "fnv_accumulate ws =
     foldl (\<lambda>h w. (h XOR ucast w) * 1099511628211) 14695981039346656037 ws"

text \<open>
  The same accumulation when a word counts as a signed number: what is XORed in is the
  64-bit two's complement of the integer that the word denotes as an \<^verbatim>\<open>int32_t\<close>.
\<close>

definition fnv_accumulate_signed :: "32 word list \<Rightarrow> uint64_t" where
  "fnv_accumulate_signed ws =
     foldl (\<lambda>h w. (h XOR word_of_int (sint w)) * 1099511628211) 14695981039346656037 ws"

section \<open>Broadcasting and comparing keys\<close>

text \<open>
  \<^verbatim>\<open>WarpSyncKey\<close> (lines 361-369).  \<open>key_ptrs\<close> is the key pointer of every lane, \<open>None\<close>
  for a pointer that was never initialised.  In round \<open>i\<close> every lane reads chunk \<open>i\<close>
  of its own key as the operand of \<^verbatim>\<open>__shfl_sync\<close>, and writes chunk \<open>i\<close> of lane
  \<open>lane_id\<close>'s key to its buffer \<open>ret\<close>.
\<close>

definition write_chunk :: "uint8_t list \<Rightarrow> nat \<Rightarrow> uint8_t list \<Rightarrow> uint8_t list" where
  "write_chunk ret i ch = take (4 * i) ret @ ch @ drop (4 * i + 4) ret"

function WarpSyncKey_loop ::
  "uint8_t list option list \<Rightarrow> nat \<Rightarrow> nat \<Rightarrow> nat \<Rightarrow> uint8_t list \<Rightarrow> fault + uint8_t list" where
  "WarpSyncKey_loop key_ptrs lane_id chunks i ret =
     (if i < chunks then
        (if list_ex (\<lambda>k. k = None) key_ptrs then Inl WildPointerRead
         else if list_ex (\<lambda>k. length (the k) < 4 * i + 4) key_ptrs then Inl OutOfBoundsRead
         else if length ret < 4 * i + 4 then Inl KeyBufferOverflow
         else WarpSyncKey_loop key_ptrs lane_id chunks (i + 1)
                (write_chunk ret i (chunk (the (key_ptrs ! lane_id)) i)))
      else Inr ret)"
  by pat_completeness auto
termination
  by (relation "measure (\<lambda>(k, l, c, i, r). c - i)") auto

declare WarpSyncKey_loop.simps [simp del]

definition WarpSyncKey ::
  "HashmapCUDAContext \<Rightarrow> uint8_t list option list \<Rightarrow> nat \<Rightarrow> uint8_t list \<Rightarrow> fault + uint8_t list" where
  "WarpSyncKey c key_ptrs lane_id ret_key_ptr =
     WarpSyncKey_loop key_ptrs lane_id (dsize_key c div 4) 0 ret_key_ptr"

text \<open>
  \<^verbatim>\<open>cmp\<close> (lines 371-380): \<^verbatim>\<open>ret = ret && (src[i] == dst[i])\<close> reads the two
  bytes only while \<open>ret\<close> is true; a read past the end of either array is a fault.
\<close>

definition cmp_step :: "uint8_t list \<Rightarrow> uint8_t list \<Rightarrow> nat \<Rightarrow> fault + bool \<Rightarrow> fault + bool" where
  "cmp_step src dst i ret =
     (case ret of
        Inl e \<Rightarrow> Inl e
      | Inr r \<Rightarrow>
          if \<not> r then Inr False
          else if i < length src \<and> i < length dst then Inr (src ! i = dst ! i)
          else Inl OutOfBoundsRead)"

definition cmp :: "uint8_t list \<Rightarrow> uint8_t list \<Rightarrow> nat \<Rightarrow> fault + bool" where
  "cmp src dst dsize = fold (cmp_step src dst) [0..<dsize] (Inr True)"

section \<open>Reading and updating slabs\<close>

text \<open>
  Every lane reads one unit of the current slab: the head slab of the bucket when the
  cursor is \<^verbatim>\<open>HEAD_SLAB_PTR\<close> (\<^verbatim>\<open>get_unit_ptr_from_list_head\<close>), a slab of the
  allocator otherwise (\<^verbatim>\<open>get_unit_ptr_from_list_nodes\<close>).  \<open>read_units\<close> is the 32
  units the warp reads, in lane order.
\<close>

definition read_units :: "HashmapCUDAContext \<Rightarrow> nat \<Rightarrow> ptr_t \<Rightarrow> fault + ptr_t list" where
  "read_units c bucket slab_ptr =
     (if slab_ptr = HEAD_SLAB_PTR then
        (if bucket < length (bucket_list_head c) then Inr (bucket_list_head c ! bucket)
         else Inl InvalidSlabPtr)
      else
        (case slab_data (slab_list_allocator_ctx c) slab_ptr of
           None \<Rightarrow> Inl InvalidSlabPtr
         | Some units \<Rightarrow> Inr units))"

definition write_unit :: "HashmapCUDAContext \<Rightarrow> nat \<Rightarrow> ptr_t \<Rightarrow> nat \<Rightarrow> ptr_t \<Rightarrow> HashmapCUDAContext" where
  "write_unit c bucket slab_ptr lane v =
     (if slab_ptr = HEAD_SLAB_PTR then
        c\<lparr>bucket_list_head :=
            (bucket_list_head c)[bucket := (bucket_list_head c ! bucket)[lane := v]]\<rparr>
      else
        c\<lparr>slab_list_allocator_ctx :=
            (slab_list_allocator_ctx c)\<lparr>slab_data :=
               (slab_data (slab_list_allocator_ctx c))
                 (slab_ptr := map_option (\<lambda>units. units[lane := v])
                                (slab_data (slab_list_allocator_ctx c) slab_ptr))\<rparr>\<rparr>)"

text \<open>\<^verbatim>\<open>atomicCAS(address, compare, val)\<close> on a unit: the old value, and the store when it matched.\<close>

definition atomicCAS ::
  "HashmapCUDAContext \<Rightarrow> nat \<Rightarrow> ptr_t \<Rightarrow> nat \<Rightarrow> ptr_t \<Rightarrow> ptr_t \<Rightarrow> fault + ptr_t \<times> HashmapCUDAContext" where
  "atomicCAS c bucket slab_ptr lane compare val =
     (case read_units c bucket slab_ptr of
        Inl e \<Rightarrow> Inl e
      | Inr units \<Rightarrow>
          let old = units ! lane
          in Inr (old, if old = compare then write_unit c bucket slab_ptr lane val else c))"

section \<open>Finding a key or an empty unit in a slab\<close>

fun collect :: "(fault + 'a) list \<Rightarrow> fault + 'a list" where
  "collect [] = Inr []"
| "collect (x # xs) =
     (case x of
        Inl e \<Rightarrow> Inl e
      | Inr v \<Rightarrow> (case collect xs of Inl e \<Rightarrow> Inl e | Inr vs \<Rightarrow> Inr (v # vs)))"

text \<open>
  \<^verbatim>\<open>WarpFindKey\<close> (lines 382-394): the predicate of one lane, with the short-circuit
  of \<^verbatim>\<open>&&\<close>, then the ballot over the 31 data lanes and the first set bit.
\<close>

definition is_lane_found :: "HashmapCUDAContext \<Rightarrow> uint8_t list \<Rightarrow> nat \<Rightarrow> ptr_t \<Rightarrow> fault + bool" where
  "is_lane_found c key_ptr lane_id ptr =
     (if \<not> PAIR_PTR_LANES_MASK ! lane_id then Inr False
      else if ptr = EMPTY_PAIR_PTR then Inr False
      else case extract_ptr (pair_allocator_ctx c) ptr of
             None \<Rightarrow> Inl InvalidPairPtr
           | Some r \<Rightarrow> cmp r key_ptr (dsize_key c))"

definition WarpFindKey :: "HashmapCUDAContext \<Rightarrow> uint8_t list \<Rightarrow> ptr_t list \<Rightarrow> fault + int" where
  "WarpFindKey c key_ptr unit_data =
     (case collect (map2 (is_lane_found c key_ptr) [0..<WARP_WIDTH] unit_data) of
        Inl e \<Rightarrow> Inl e
      | Inr found \<Rightarrow> Inr (int (ffs (ballot_sync PAIR_PTR_LANES_MASK found)) - 1))"

text \<open>\<^verbatim>\<open>WarpFindEmpty\<close> (lines 396-401).\<close>

definition WarpFindEmpty :: "ptr_t list \<Rightarrow> int" where
  "WarpFindEmpty unit_data =
     int (ffs (ballot_sync PAIR_PTR_LANES_MASK (map (\<lambda>ptr. ptr = EMPTY_PAIR_PTR) unit_data))) - 1"

text \<open>\<^verbatim>\<open>AllocateSlab\<close> and \<^verbatim>\<open>FreeSlab\<close> (lines 403-411), on the context.\<close>

definition AllocateSlab :: "HashmapCUDAContext \<Rightarrow> ptr_t \<times> HashmapCUDAContext" where
  "AllocateSlab c =
     (let (p, a) = WarpAllocate (slab_list_allocator_ctx c)
      in (p, c\<lparr>slab_list_allocator_ctx := a\<rparr>))"

definition FreeSlab :: "ptr_t \<Rightarrow> HashmapCUDAContext \<Rightarrow> HashmapCUDAContext" where
  "FreeSlab slab_ptr c =
     c\<lparr>slab_list_allocator_ctx := FreeUntouched slab_ptr (slab_list_allocator_ctx c)\<rparr>"

definition FreePair :: "ptr_t \<Rightarrow> HashmapCUDAContext \<Rightarrow> HashmapCUDAContext" where
  "FreePair p c = c\<lparr>pair_allocator_ctx := Free p (pair_allocator_ctx c)\<rparr>"

section \<open>The state of a warp\<close>

text \<open>
  The lanes of a warp run \<^verbatim>\<open>Search\<close>, \<^verbatim>\<open>Insert\<close> and \<^verbatim>\<open>Remove\<close> in lockstep.  The
  per-lane variables are lists indexed by lane: \<open>lane_active\<close> is the flag passed by
  reference (\<^verbatim>\<open>to_search\<close>, \<^verbatim>\<open>to_be_inserted\<close>, \<^verbatim>\<open>to_be_deleted\<close>), \<open>lane_iterator\<close>
  and \<open>lane_mask\<close> are \<^verbatim>\<open>iterator\<close> and \<^verbatim>\<open>mask\<close>, \<open>lane_prealloc\<close> is
  \<^verbatim>\<open>prealloc_pair_internal_ptr\<close>.  \<^verbatim>\<open>prev_work_queue\<close> and \<^verbatim>\<open>curr_slab_ptr\<close> are
  assigned from warp-uniform values only, so one copy stands for all lanes.  \<open>ctx\<close> is
  the device memory.  The arguments \<open>bucket_id\<close> and \<open>key\<close> of the lanes do not change.
  \<open>uninit\<close> stands for the bytes that \<^verbatim>\<open>uint8_t src_key[MAX_KEY_BYTESIZE]\<close> holds
  before \<^verbatim>\<open>WarpSyncKey\<close> writes to it: the array is not initialised.
\<close>

record warp_state =
  ctx :: HashmapCUDAContext
  lane_active :: "bool list"
  lane_iterator :: "ptr_t list"
  lane_mask :: "bool list"
  lane_prealloc :: "ptr_t list"
  prev_work_queue :: lane_mask
  curr_slab_ptr :: ptr_t

section \<open>One round of a warp\<close>

text \<open>
  The loops of \<^verbatim>\<open>Search\<close> (lines 426-445), \<^verbatim>\<open>Insert\<close> (lines 520-540) and
  \<^verbatim>\<open>Remove\<close> (lines 638-656) begin every round with the same statements: the ballot
  of the active lanes, the restart from the head slab when the work queue changed, the
  election of the lowest active lane, the broadcast of its bucket and key, the read of
  the current slab and the vote for the key.  \<open>begin_round\<close> is this prefix; it returns
  the values of the round and the state with the cursor and, as the last statement of
  the loop body does, \<^verbatim>\<open>prev_work_queue = work_queue\<close> (nothing reads
  \<^verbatim>\<open>prev_work_queue\<close> in between).
\<close>

record round =
  work_queue :: lane_mask
  src_lane :: nat
  src_bucket :: nat
  src_key :: "uint8_t list"
  unit_data :: "ptr_t list"
  lane_found :: int

definition begin_round ::
  "uint8_t list \<Rightarrow> nat list \<Rightarrow> uint8_t list option list \<Rightarrow> warp_state
   \<Rightarrow> fault + round \<times> warp_state" where
  "begin_round uninit bucket_id key s =
     (let wq = ballot_sync ACTIVE_LANES_MASK (lane_active s);
          curr = (if prev_work_queue s \<noteq> wq then HEAD_SLAB_PTR else curr_slab_ptr s);
          lane = ffs wq - 1;
          bucket = bucket_id ! lane
      in case WarpSyncKey (ctx s) key lane uninit of
           Inl e \<Rightarrow> Inl e
         | Inr skey \<Rightarrow>
       (case read_units (ctx s) bucket curr of
           Inl e \<Rightarrow> Inl e
         | Inr units \<Rightarrow>
       (case WarpFindKey (ctx s) skey units of
           Inl e \<Rightarrow> Inl e
         | Inr found \<Rightarrow>
             Inr (\<lparr>work_queue = wq, src_lane = lane, src_bucket = bucket, src_key = skey,
                   unit_data = units, lane_found = found\<rparr>,
                  s\<lparr>prev_work_queue := wq, curr_slab_ptr := curr\<rparr>))))"

section \<open>Search\<close>

text \<open>The resolution of a round of \<^verbatim>\<open>HashmapCUDAContext::Search\<close> (lines 447-477).\<close>

definition Search_resolve :: "round \<Rightarrow> warp_state \<Rightarrow> warp_state" where
  "Search_resolve r s =
     (if 0 \<le> lane_found r then
        \<comment> \<open>1. Found in this slab, SUCCEED\<close>
        (let found_pair_internal_ptr = unit_data r ! nat (lane_found r)
         in s\<lparr>lane_active := (lane_active s)[src_lane r := False],
               lane_iterator := (lane_iterator s)[src_lane r := found_pair_internal_ptr],
               lane_mask := (lane_mask s)[src_lane r := True]\<rparr>)
      else
        \<comment> \<open>2. Not found in this slab\<close>
        (let next_slab_ptr = unit_data r ! NEXT_SLAB_PTR_LANE
         in if next_slab_ptr = EMPTY_SLAB_PTR
            then s\<lparr>lane_active := (lane_active s)[src_lane r := False]\<rparr>
            else s\<lparr>curr_slab_ptr := next_slab_ptr\<rparr>))"

definition Search_body ::
  "uint8_t list \<Rightarrow> nat list \<Rightarrow> uint8_t list option list \<Rightarrow> warp_state \<Rightarrow> fault + warp_state" where
  "Search_body uninit bucket_id query_key s =
     (case begin_round uninit bucket_id query_key s of
        Inl e \<Rightarrow> Inl e
      | Inr (r, s1) \<Rightarrow> Inr (Search_resolve r s1))"

partial_function (option) Search_loop ::
  "uint8_t list \<Rightarrow> nat list \<Rightarrow> uint8_t list option list \<Rightarrow> warp_state \<Rightarrow> (fault + warp_state) option" where
  "Search_loop uninit bucket_id query_key s =
     (if nonzero (ballot_sync ACTIVE_LANES_MASK (lane_active s)) then
        (case Search_body uninit bucket_id query_key s of
           Inl e \<Rightarrow> Some (Inl e)
         | Inr s' \<Rightarrow> Search_loop uninit bucket_id query_key s')
      else Some (Inr s))"

declare Search_loop.simps [code]

text \<open>The local variables of the three operations before the loop.\<close>

definition init_state :: "HashmapCUDAContext \<Rightarrow> bool list \<Rightarrow> warp_state" where
  "init_state c active =
     \<lparr>ctx = c, lane_active = active,
      lane_iterator = replicate WARP_WIDTH NULL_ITERATOR,
      lane_mask = replicate WARP_WIDTH False,
      lane_prealloc = replicate WARP_WIDTH EMPTY_PAIR_PTR,
      prev_work_queue = replicate WARP_WIDTH False,
      curr_slab_ptr = HEAD_SLAB_PTR\<rparr>"

definition Search ::
  "HashmapCUDAContext \<Rightarrow> uint8_t list \<Rightarrow> bool list \<Rightarrow> nat list \<Rightarrow> uint8_t list option list
   \<Rightarrow> (fault + warp_state) option" where
  "Search c uninit to_search bucket_id query_key =
     Search_loop uninit bucket_id query_key (init_state c to_search)"

section \<open>Insert\<close>

text \<open>
  The eager allocation of \<^verbatim>\<open>Insert\<close> (lines 505-517) for one lane: an active lane
  claims a record and copies \<open>dsize_key\<close> bytes of its key and \<open>dsize_value\<close> bytes of
  its value into it.  The handle that \<open>Allocate\<close> returned is not inspected; a copy
  into a record that does not exist is a fault.
\<close>

definition prealloc_one ::
  "HashmapCUDAContext \<Rightarrow> bool \<Rightarrow> uint8_t list option \<Rightarrow> uint8_t list
   \<Rightarrow> fault + ptr_t \<times> HashmapCUDAContext" where
  "prealloc_one c active key val =
     (if \<not> active then Inr (EMPTY_PAIR_PTR, c)
      else
        let (p, m) = Allocate (pair_allocator_ctx c) in
        if dsize_key c = 0 \<and> dsize_value c = 0 then Inr (p, c\<lparr>pair_allocator_ctx := m\<rparr>)
        else if 0 < dsize_key c \<and> key = None then Inl WildPointerRead
        else
          let k = (case key of None \<Rightarrow> [] | Some k \<Rightarrow> k) in
          if length k < dsize_key c \<or> length val < dsize_value c then Inl OutOfBoundsRead
          else
            (case extract_ptr m p of
               None \<Rightarrow> Inl InvalidPairPtr
             | Some r \<Rightarrow>
                 Inr (p, c\<lparr>pair_allocator_ctx :=
                            m\<lparr>pair_data := (pair_data m)
                                 (p \<mapsto> take (dsize_key c) k @ take (dsize_value c) val @
                                        drop (dsize_key c + dsize_value c) r)\<rparr>\<rparr>)))"

text \<open>The lanes allocate one after the other, lane 0 first.\<close>

fun prealloc_lanes ::
  "HashmapCUDAContext \<Rightarrow> bool list \<Rightarrow> uint8_t list option list \<Rightarrow> uint8_t list list
   \<Rightarrow> fault + ptr_t list \<times> HashmapCUDAContext" where
  "prealloc_lanes c (a # as) (k # ks) (v # vs) =
     (case prealloc_one c a k v of
        Inl e \<Rightarrow> Inl e
      | Inr (p, c') \<Rightarrow>
          (case prealloc_lanes c' as ks vs of
             Inl e \<Rightarrow> Inl e
           | Inr (ps, c'') \<Rightarrow> Inr (p # ps, c'')))"
| "prealloc_lanes c _ _ _ = Inr ([], c)"

text \<open>
  The resolution of a round of \<^verbatim>\<open>HashmapCUDAContext::Insert\<close> (lines 540-619).
  The compare-and-swap of Branch 2 is done by the lane \<open>src_lane\<close>, the one of Branch
  3.2 by lane 31 with the slab that \<^verbatim>\<open>AllocateSlab\<close> returned to the warp.
\<close>

definition Insert_resolve :: "round \<Rightarrow> warp_state \<Rightarrow> fault + warp_state" where
  "Insert_resolve r s =
     (let c = ctx s;
          prealloc_pair_internal_ptr = lane_prealloc s ! src_lane r;
          lane_empty = WarpFindEmpty (unit_data r)
      in if 0 \<le> lane_found r then
           \<comment> \<open>Branch 1: key already existing, ABORT\<close>
           Inr (s\<lparr>lane_active := (lane_active s)[src_lane r := False],
                  ctx := FreePair prealloc_pair_internal_ptr c\<rparr>)
         else if 0 \<le> lane_empty then
           \<comment> \<open>Branch 2: empty slot available, try to insert\<close>
           (case atomicCAS c (src_bucket r) (curr_slab_ptr s) (nat lane_empty) EMPTY_PAIR_PTR
                   prealloc_pair_internal_ptr of
              Inl e \<Rightarrow> Inl e
            | Inr (old_pair_internal_ptr, c') \<Rightarrow>
                if old_pair_internal_ptr = EMPTY_PAIR_PTR then
                  \<comment> \<open>Branch 2.1: SUCCEED\<close>
                  Inr (s\<lparr>ctx := c',
                         lane_active := (lane_active s)[src_lane r := False],
                         lane_iterator :=
                           (lane_iterator s)[src_lane r := prealloc_pair_internal_ptr],
                         lane_mask := (lane_mask s)[src_lane r := True]\<rparr>)
                else
                  \<comment> \<open>Branch 2.2: failed: RESTART\<close>
                  Inr (s\<lparr>ctx := c'\<rparr>))
         else
           \<comment> \<open>Branch 3: nothing found in this slab, goto next slab\<close>
           (let next_slab_ptr = unit_data r ! NEXT_SLAB_PTR_LANE in
            if next_slab_ptr \<noteq> EMPTY_SLAB_PTR then
              \<comment> \<open>Branch 3.1: next slab existing, RESTART this lane\<close>
              Inr (s\<lparr>curr_slab_ptr := next_slab_ptr\<rparr>)
            else
              \<comment> \<open>Branch 3.2: next slab empty, try to allocate one\<close>
              (let (new_next_slab_ptr, c1) = AllocateSlab c in
               case atomicCAS c1 (src_bucket r) (curr_slab_ptr s) NEXT_SLAB_PTR_LANE
                      EMPTY_SLAB_PTR new_next_slab_ptr of
                 Inl e \<Rightarrow> Inl e
               | Inr (old_next_slab_ptr, c2) \<Rightarrow>
                   if old_next_slab_ptr \<noteq> EMPTY_SLAB_PTR
                   then Inr (s\<lparr>ctx := FreeSlab new_next_slab_ptr c2\<rparr>)
                   else Inr (s\<lparr>ctx := c2\<rparr>))))"

definition Insert_body ::
  "uint8_t list \<Rightarrow> nat list \<Rightarrow> uint8_t list option list \<Rightarrow> warp_state \<Rightarrow> fault + warp_state" where
  "Insert_body uninit bucket_id key s =
     (case begin_round uninit bucket_id key s of
        Inl e \<Rightarrow> Inl e
      | Inr (r, s1) \<Rightarrow> Insert_resolve r s1)"

partial_function (option) Insert_loop ::
  "uint8_t list \<Rightarrow> nat list \<Rightarrow> uint8_t list option list \<Rightarrow> warp_state \<Rightarrow> (fault + warp_state) option" where
  "Insert_loop uninit bucket_id key s =
     (if nonzero (ballot_sync ACTIVE_LANES_MASK (lane_active s)) then
        (case Insert_body uninit bucket_id key s of
           Inl e \<Rightarrow> Some (Inl e)
         | Inr s' \<Rightarrow> Insert_loop uninit bucket_id key s')
      else Some (Inr s))"

declare Insert_loop.simps [code]

definition Insert ::
  "HashmapCUDAContext \<Rightarrow> uint8_t list \<Rightarrow> bool list \<Rightarrow> nat list \<Rightarrow> uint8_t list option list
   \<Rightarrow> uint8_t list list \<Rightarrow> (fault + warp_state) option" where
  "Insert c uninit to_be_inserted bucket_id key val =
     (case prealloc_lanes c to_be_inserted key val of
        Inl e \<Rightarrow> Some (Inl e)
      | Inr (ps, c') \<Rightarrow>
          Insert_loop uninit bucket_id key ((init_state c' to_be_inserted)\<lparr>lane_prealloc := ps\<rparr>))"

section \<open>Remove\<close>

text \<open>
  The resolution of a round of \<^verbatim>\<open>HashmapCUDAContext::Remove\<close> (lines 658-694).
  \<^verbatim>\<open>pair_to_delete\<close> is read again from the unit that the vote found; nothing has
  written to it since the round read the slab.  In the branch that finds no match and
  no next slab, \<^verbatim>\<open>to_be_deleted = false\<close> is not guarded by
  \<^verbatim>\<open>lane_id == src_lane\<close>: every lane clears its flag.
\<close>

definition Remove_resolve :: "round \<Rightarrow> warp_state \<Rightarrow> fault + warp_state" where
  "Remove_resolve r s =
     (if 0 \<le> lane_found r then
        \<comment> \<open>Branch 1: key found\<close>
        (let src_pair_internal_ptr = unit_data r ! nat (lane_found r);
             pair_to_delete = unit_data r ! nat (lane_found r)
         in case atomicCAS (ctx s) (src_bucket r) (curr_slab_ptr s) (nat (lane_found r))
                   pair_to_delete EMPTY_PAIR_PTR of
              Inl e \<Rightarrow> Inl e
            | Inr (old_key_value_pair, c') \<Rightarrow>
                if old_key_value_pair = pair_to_delete then
                  \<comment> \<open>Branch 1.1: this thread reset, free src_addr\<close>
                  Inr (s\<lparr>ctx := FreePair src_pair_internal_ptr c',
                         lane_mask := (lane_mask s)[src_lane r := True],
                         lane_active := (lane_active s)[src_lane r := False]\<rparr>)
                else
                  \<comment> \<open>Branch 1.2: other thread did the job, avoid double free\<close>
                  Inr (s\<lparr>ctx := c',
                         lane_active := (lane_active s)[src_lane r := False]\<rparr>))
      else
        (let next_slab_ptr = unit_data r ! NEXT_SLAB_PTR_LANE
         in if next_slab_ptr = EMPTY_SLAB_PTR
            then Inr (s\<lparr>lane_active := map (\<lambda>_. False) (lane_active s)\<rparr>)
            else Inr (s\<lparr>curr_slab_ptr := next_slab_ptr\<rparr>)))"

definition Remove_body ::
  "uint8_t list \<Rightarrow> nat list \<Rightarrow> uint8_t list option list \<Rightarrow> warp_state \<Rightarrow> fault + warp_state" where
  "Remove_body uninit bucket_id key s =
     (case begin_round uninit bucket_id key s of
        Inl e \<Rightarrow> Inl e
      | Inr (r, s1) \<Rightarrow> Remove_resolve r s1)"

partial_function (option) Remove_loop ::
  "uint8_t list \<Rightarrow> nat list \<Rightarrow> uint8_t list option list \<Rightarrow> warp_state \<Rightarrow> (fault + warp_state) option" where
  "Remove_loop uninit bucket_id key s =
     (if nonzero (ballot_sync ACTIVE_LANES_MASK (lane_active s)) then
        (case Remove_body uninit bucket_id key s of
           Inl e \<Rightarrow> Some (Inl e)
         | Inr s' \<Rightarrow> Remove_loop uninit bucket_id key s')
      else Some (Inr s))"

declare Remove_loop.simps [code]

definition Remove ::
  "HashmapCUDAContext \<Rightarrow> uint8_t list \<Rightarrow> bool list \<Rightarrow> nat list \<Rightarrow> uint8_t list option list
   \<Rightarrow> (fault + warp_state) option" where
  "Remove c uninit to_be_deleted bucket_id key =
     Remove_loop uninit bucket_id key (init_state c to_be_deleted)"

section \<open>Kernels and host functions\<close>

text \<open>
  A kernel runs one thread per request; the 32 threads of a warp are its lanes.  The
  warps of a launch are run one after the other in the order of their index, which is
  one of the schedules of the device and the one section 9 of the specification
  describes for a sequential target.  \<open>tid\<close> of lane \<open>lane_id\<close> of warp \<open>w\<close> is
  \<open>w * WARP_WIDTH + lane_id\<close>.  The element of a lane starts at
  \<^verbatim>\<open>keys + tid * dsize_key_\<close>, a product of two \<^verbatim>\<open>uint32_t\<close>.  The input arrays
  hold \<open>num_keys\<close> elements; a shorter array is read past its end.
\<close>

definition elem_at :: "nat \<Rightarrow> uint8_t list \<Rightarrow> nat \<Rightarrow> uint8_t list" where
  "elem_at dsize arr tid = take dsize (drop ((tid * dsize) mod 2 ^ 32) arr)"

definition lane_tids :: "nat \<Rightarrow> nat list" where
  "lane_tids w = map (\<lambda>lane_id. w * WARP_WIDTH + lane_id) [0..<WARP_WIDTH]"












text \<open>
  Modelled from the spec: \<^verbatim>\<open>HashmapCUDA::ExtractIterators\<close> is declared (lines
  182-185) and its definition is not among the files.  For every iterator it yields the
  key bytes and the value bytes of the record the iterator names (section 6).
\<close>

definition ExtractIterators ::
  "HashmapCUDAContext \<Rightarrow> ptr_t list \<Rightarrow> fault + (uint8_t list \<times> uint8_t list) list" where
  "ExtractIterators c iterators =
     collect (map (\<lambda>it. case extract_ptr (pair_allocator_ctx c) it of
                           None \<Rightarrow> Inl InvalidPairPtr
                         | Some r \<Rightarrow> Inr (take (dsize_key c) r,
                                          take (dsize_value c) (drop (dsize_key c) r)))
                  iterators)"

section \<open>Construction\<close>

text \<open>
  The constructor \<^verbatim>\<open>HashmapCUDA::HashmapCUDA\<close> (lines 229-251): the head slabs are
  filled with \<^verbatim>\<open>0xFF\<close> bytes, so every unit is the all-ones word; \<^verbatim>\<open>Setup\<close> copies
  the sizes and makes the hash function of \<open>dsize_key\<close>.
  Modelled from the spec: the two pools.  The pair store holds \<open>max_keyvalue_count\<close>
  records of \<open>dsize_key + dsize_value\<close> bytes, with the handles \<open>0, 1, ...\<close>; the slab
  allocator is made without a size (line 240), its pool is the parameter
  \<open>slab_count\<close> here, with the handles \<open>0, 1, ...\<close> and every unit EMPTY.
\<close>

definition HashmapCUDA_new :: "nat \<Rightarrow> nat \<Rightarrow> nat \<Rightarrow> nat \<Rightarrow> nat \<Rightarrow> HashmapCUDAContext" where
  "HashmapCUDA_new max_bucket_count max_keyvalue_count dsize_key' dsize_value' slab_count =
     \<lparr>num_buckets = max_bucket_count,
      dsize_key = dsize_key',
      dsize_value = dsize_value',
      hash_fn = \<lparr>key_size = dsize_key'\<rparr>,
      bucket_list_head = replicate max_bucket_count (replicate 32 0xFFFFFFFF),
      slab_list_allocator_ctx =
        \<lparr>slab_pool = map of_nat [0..<slab_count],
         slab_data = (\<lambda>p. if unat p < slab_count then Some (replicate 32 0xFFFFFFFF) else None),
         slab_free = map of_nat [0..<slab_count]\<rparr>,
      pair_allocator_ctx =
        \<lparr>pair_data = (\<lambda>p. if unat p < max_keyvalue_count
                           then Some (replicate (dsize_key' + dsize_value') 0) else None),
         pair_free = map of_nat [0..<max_keyvalue_count]\<rparr>\<rparr>"

section \<open>Diagnostics\<close>

text \<open>\<^verbatim>\<open>__popc\<close>: the number of set bits.\<close>

definition popc :: "lane_mask \<Rightarrow> nat" where
  "popc m = length (filter id m)"

definition count_units :: "ptr_t list \<Rightarrow> nat" where
  "count_units src_unit_data =
     popc (ballot_sync PAIR_PTR_LANES_MASK (map (\<lambda>ptr. ptr \<noteq> EMPTY_PAIR_PTR) src_unit_data))"

text \<open>The loop of \<^verbatim>\<open>CountElemsPerBucketKernel\<close> (lines 890-897) over the chain.\<close>

partial_function (option) CountElems_loop ::
  "HashmapCUDAContext \<Rightarrow> ptr_t \<Rightarrow> nat \<Rightarrow> (fault + nat) option" where
  "CountElems_loop c next count =
     (if next \<noteq> EMPTY_SLAB_PTR then
        (case slab_data (slab_list_allocator_ctx c) next of
           None \<Rightarrow> Some (Inl InvalidSlabPtr)
         | Some src_unit_data \<Rightarrow>
             CountElems_loop c (src_unit_data ! NEXT_SLAB_PTR_LANE)
               (count + count_units src_unit_data))
      else Some (Inr count))"

declare CountElems_loop.simps [code]

text \<open>\<^verbatim>\<open>CountElemsPerBucketKernel\<close> (lines 866-903) for the warp of bucket \<open>wid\<close>.\<close>

definition CountElemsPerBucketKernel :: "HashmapCUDAContext \<Rightarrow> nat \<Rightarrow> (fault + nat) option" where
  "CountElemsPerBucketKernel c wid =
     (let src_unit_data = bucket_list_head c ! wid
      in CountElems_loop c (src_unit_data ! NEXT_SLAB_PTR_LANE) (count_units src_unit_data))"

fun collect_counts :: "(fault + nat) option list \<Rightarrow> (fault + nat list) option" where
  "collect_counts [] = Some (Inr [])"
| "collect_counts (x # xs) =
     (case x of
        None \<Rightarrow> None
      | Some (Inl e) \<Rightarrow> Some (Inl e)
      | Some (Inr n) \<Rightarrow>
          (case collect_counts xs of
             None \<Rightarrow> None
           | Some (Inl e) \<Rightarrow> Some (Inl e)
           | Some (Inr ns) \<Rightarrow> Some (Inr (n # ns))))"

text \<open>
  \<^verbatim>\<open>HashmapCUDA::CountElemsPerBucket\<close> (lines 287-305): the counts start at 0, the
  launch has \<^verbatim>\<open>(num_buckets_ * 32 + blocksize - 1) / blocksize\<close> blocks of 128
  threads, computed in \<^verbatim>\<open>uint32_t\<close>, and a warp whose index is a bucket writes its
  count.
\<close>

definition CountElemsPerBucket :: "HashmapCUDAContext \<Rightarrow> (fault + nat list) option" where
  "CountElemsPerBucket c =
     (let blocks = ((num_buckets c * 32 + 128 - 1) mod 2 ^ 32) div 128;
          warps = blocks * 4
      in collect_counts
           (map (\<lambda>wid. if wid < warps then CountElemsPerBucketKernel c wid else Some (Inr 0))
              [0..<num_buckets c]))"

text \<open>
  \<^verbatim>\<open>HashmapCUDA::ComputeLoadFactor\<close> (lines 307-321).  The result is the pair of
  integers that the code converts to \<^verbatim>\<open>double\<close> and divides: the number of stored
  elements, and the number of slabs (the allocated ones and one head slab per bucket)
  times \<^verbatim>\<open>WARP_WIDTH\<close>.  \<open>load_factor\<close> is their quotient as a real number; the
  rounding of the division in \<^verbatim>\<open>double\<close> is not part of the model.
\<close>

definition ComputeLoadFactor_operands :: "HashmapCUDAContext \<Rightarrow> (fault + nat \<times> nat) option" where
  "ComputeLoadFactor_operands c =
     (case CountElemsPerBucket c of
        None \<Rightarrow> None
      | Some (Inl e) \<Rightarrow> Some (Inl e)
      | Some (Inr elems_per_bucket) \<Rightarrow>
          let total_elems_stored = sum_list elems_per_bucket;
              total_slabs_stored = CountSlabs (slab_list_allocator_ctx c) + num_buckets c
          in Some (Inr (total_elems_stored, total_slabs_stored * WARP_WIDTH)))"

definition load_factor :: "nat \<times> nat \<Rightarrow> real" where
  "load_factor p = real (fst p) / real (snd p)"

text \<open>The vote of the 31 data lanes for a predicate of the unit each lane read.\<close>

definition first_lane :: "(ptr_t \<Rightarrow> bool) \<Rightarrow> ptr_t list \<Rightarrow> int" where
  "first_lane P units = int (ffs (map (\<lambda>i. i < 31 \<and> P (units ! i)) [0..<32])) - 1"

text \<open>A unit matches the broadcast key when it holds a record whose key bytes equal it.\<close>

definition key_of :: "HashmapCUDAContext \<Rightarrow> ptr_t \<Rightarrow> uint8_t list" where
  "key_of c p = take (dsize_key c) (the (pair_data (pair_allocator_ctx c) p))"

definition matches :: "HashmapCUDAContext \<Rightarrow> uint8_t list \<Rightarrow> ptr_t \<Rightarrow> bool" where
  "matches c skey p \<longleftrightarrow> p \<noteq> EMPTY_PAIR_PTR \<and> key_of c p = take (dsize_key c) skey"

text \<open>The data units of a slab name records of the pair store.\<close>

definition units_ok :: "HashmapCUDAContext \<Rightarrow> ptr_t list \<Rightarrow> bool" where
  "units_ok c units \<longleftrightarrow>
     length units = 32 \<and>
     (\<forall>i<31. units ! i \<noteq> EMPTY_PAIR_PTR \<longrightarrow>
        (\<exists>r. pair_data (pair_allocator_ctx c) (units ! i) = Some r \<and> dsize_key c \<le> length r))"

text \<open>
  The slab that a cursor names in bucket \<open>b\<close>, and the chain of a bucket: \<open>ps\<close> lists
  the handles of the chained slabs after the head slab, in the order of the next
  pointers.
\<close>

definition slab_of :: "HashmapCUDAContext \<Rightarrow> nat \<Rightarrow> ptr_t \<Rightarrow> Slab" where
  "slab_of c b p =
     (if p = HEAD_SLAB_PTR then bucket_list_head c ! b
      else the (slab_data (slab_list_allocator_ctx c) p))"

definition cursor :: "ptr_t list \<Rightarrow> nat \<Rightarrow> ptr_t" where
  "cursor ps j = (HEAD_SLAB_PTR # ps) ! j"

definition bucket_slabs :: "HashmapCUDAContext \<Rightarrow> nat \<Rightarrow> ptr_t list \<Rightarrow> Slab list" where
  "bucket_slabs c b ps = map (slab_of c b) (HEAD_SLAB_PTR # ps)"

definition wf_chain :: "HashmapCUDAContext \<Rightarrow> nat \<Rightarrow> ptr_t list \<Rightarrow> bool" where
  "wf_chain c b ps \<longleftrightarrow>
     b < length (bucket_list_head c) \<and> distinct ps \<and>
     (\<forall>p\<in>set ps. p \<noteq> HEAD_SLAB_PTR \<and> p \<noteq> EMPTY_SLAB_PTR \<and>
                 slab_data (slab_list_allocator_ctx c) p \<noteq> None) \<and>
     (\<forall>j\<le>length ps. units_ok c (slab_of c b (cursor ps j)) \<and>
        slab_of c b (cursor ps j) ! 31 = (if j < length ps then ps ! j else EMPTY_SLAB_PTR))"

text \<open>Lane \<open>l\<close> leads the warp: it is the lowest active lane.\<close>

definition leader :: "bool list \<Rightarrow> nat \<Rightarrow> bool" where
  "leader a l \<longleftrightarrow> length a = 32 \<and> l < 32 \<and> a ! l \<and> (\<forall>i<l. \<not> a ! i)"



definition at_cursor :: "warp_state \<Rightarrow> ptr_t list \<Rightarrow> nat \<Rightarrow> bool" where
  "at_cursor s ps j \<longleftrightarrow>
     (if prev_work_queue s \<noteq> lane_active s then j = 0 else curr_slab_ptr s = cursor ps j)"



text \<open>
  Where the walk of an insert request ends: at a slab that holds the key (\<open>Dup\<close>), at
  the first empty unit \<open>e\<close> of slab number \<open>j\<close> (\<open>Put j e\<close>), or past the last slab
  (\<open>Grow\<close>).
\<close>

datatype plan = Dup | Put nat nat | Grow

fun insert_plan :: "HashmapCUDAContext \<Rightarrow> uint8_t list \<Rightarrow> Slab list \<Rightarrow> nat \<Rightarrow> plan" where
  "insert_plan c skey [] j = Grow"
| "insert_plan c skey (u # us) j =
     (if 0 \<le> first_lane (matches c skey) u then Dup
      else if 0 \<le> first_lane (\<lambda>q. q = EMPTY_PAIR_PTR) u
           then Put j (nat (first_lane (\<lambda>q. q = EMPTY_PAIR_PTR) u))
           else insert_plan c skey us (Suc j))"


text \<open>The context after Branch 3.2 of \<^verbatim>\<open>Insert\<close> at the last slab of the chain \<open>ps\<close>.\<close>

definition link_slab :: "HashmapCUDAContext \<Rightarrow> nat \<Rightarrow> ptr_t list \<Rightarrow> HashmapCUDAContext" where
  "link_slab c b ps =
     (let (q, c1) = AllocateSlab c
      in write_unit c1 b (cursor ps (length ps)) NEXT_SLAB_PTR_LANE q)"

text \<open>
  What the request of the leading lane does to the memory, whether it stores its record,
  and the chain of its bucket afterwards: \<open>ps\<close> is the chain of the bucket \<open>b\<close>, \<open>skey\<close>
  the key that was broadcast and \<open>p\<close> the record the lane allocated.
\<close>

definition insert_req_plan :: "HashmapCUDAContext \<Rightarrow> ptr_t list \<Rightarrow> nat \<Rightarrow> uint8_t list \<Rightarrow> plan" where
  "insert_req_plan c ps b skey = insert_plan c skey (bucket_slabs c b ps) 0"

definition insert_req_ctx ::
  "HashmapCUDAContext \<Rightarrow> ptr_t list \<Rightarrow> nat \<Rightarrow> uint8_t list \<Rightarrow> ptr_t \<Rightarrow> HashmapCUDAContext" where
  "insert_req_ctx c ps b skey p =
     (case insert_req_plan c ps b skey of
        Dup \<Rightarrow> FreePair p c
      | Put j e \<Rightarrow> write_unit c b (cursor ps j) e p
      | Grow \<Rightarrow>
          write_unit (link_slab c b ps) b (hd (slab_free (slab_list_allocator_ctx c))) 0 p)"





definition store_pair ::
  "HashmapCUDAContext \<Rightarrow> ptr_t \<Rightarrow> uint8_t list \<Rightarrow> uint8_t list \<Rightarrow> HashmapCUDAContext" where
  "store_pair c p k v =
     c\<lparr>pair_allocator_ctx := (pair_allocator_ctx c)
         \<lparr>pair_data := (pair_data (pair_allocator_ctx c))
            (p \<mapsto> take (dsize_key c) k @ take (dsize_value c) v @
                   drop (dsize_key c + dsize_value c) (the (pair_data (pair_allocator_ctx c) p))),
          pair_free := tl (pair_free (pair_allocator_ctx c))\<rparr>\<rparr>"


definition kernel_active :: "nat \<Rightarrow> nat \<Rightarrow> bool list" where
  "kernel_active num_keys w = map (\<lambda>tid. tid < num_keys) (lane_tids w)"

definition kernel_keys ::
  "uint8_t list \<Rightarrow> HashmapCUDAContext \<Rightarrow> uint8_t list \<Rightarrow> nat \<Rightarrow> nat \<Rightarrow> uint8_t list option list" where
  "kernel_keys uninit c keys num_keys w =
     map (\<lambda>tid. if tid < num_keys then Some (elem_at (dsize_key c) keys tid) else Some uninit)
       (lane_tids w)"

definition kernel_vals :: "HashmapCUDAContext \<Rightarrow> uint8_t list \<Rightarrow> nat \<Rightarrow> nat \<Rightarrow> uint8_t list list" where
  "kernel_vals c vals num_keys w =
     map (\<lambda>tid. if tid < num_keys then elem_at (dsize_value c) vals tid else []) (lane_tids w)"

definition bucket_of :: "HashmapCUDAContext \<Rightarrow> uint8_t list \<Rightarrow> nat" where
  "bucket_of c k = (case ComputeBucket c k of Inr b \<Rightarrow> b | Inl e \<Rightarrow> 0)"

definition kernel_buckets :: "HashmapCUDAContext \<Rightarrow> uint8_t list \<Rightarrow> nat \<Rightarrow> nat \<Rightarrow> nat list" where
  "kernel_buckets c keys num_keys w =
     map (\<lambda>tid. if tid < num_keys then bucket_of c (elem_at (dsize_key c) keys tid) else 0)
       (lane_tids w)"









section \<open>The hash function: properties\<close>

lemma byte_cons:
  "(word_of_nat (unat (a :: uint8_t) + 256 * n) :: 32 word) = ucast a OR push_bit 8 (word_of_nat n)"
proof -
  have "(ucast a :: 32 word) AND push_bit 8 (word_of_nat n) = 0"
    by (rule bit_eqI) (auto simp: bit_simps dest: bit_imp_le_length)
  then have "(ucast a :: 32 word) + push_bit 8 (word_of_nat n) = ucast a OR push_bit 8 (word_of_nat n)"
    by (rule disjunctive_add_eq_or)
  moreover have "(word_of_nat (unat a + 256 * n) :: 32 word) = ucast a + push_bit 8 (word_of_nat n)"
    by (simp add: push_bit_eq_mult)
  ultimately show ?thesis by simp
qed

lemma int32_of_four: "int32_of [a, b, c, d] = word_of_bytes [a, b, c, d]"
proof -
  have "word_of_bytes [a, b, c, d] =
      word_of_nat (unat a + 256 * (unat b + 256 * (unat c + 256 * (unat d + 256 * 0))))"
    by (simp add: word_of_bytes_def)
  also have "\<dots> = ucast a OR push_bit 8 (ucast b OR push_bit 8 (ucast c OR
      push_bit 8 (ucast d OR push_bit 8 (word_of_nat 0))))"
    by (simp only: byte_cons)
  also have "\<dots> = int32_of [a, b, c, d]"
    by (simp add: int32_of_def push_bit_or)
  finally show ?thesis by simp
qed

lemma int32_of_chunk:
  assumes "4 * i + 4 \<le> length key"
  shows "int32_of (chunk key i) = word_of_bytes (take 4 (drop (4 * i) key))"
proof -
  have "length (chunk key i) = 4" using assms by (simp add: chunk_def)
  then obtain a b c d where "chunk key i = [a, b, c, d]"
    by (auto simp: length_Suc_conv numeral_eq_Suc)
  then show ?thesis using int32_of_four [of a b c d] by (simp add: chunk_def)
qed

lemma DefaultHash_loop_fnv:
  "i \<le> chunks \<Longrightarrow> 4 * chunks \<le> length key \<Longrightarrow>
   DefaultHash_loop key chunks i h =
     Inr (foldl (\<lambda>h w. (h XOR word_of_int (sint w)) * 1099511628211) h
            (key_words (chunks - i) (drop (4 * i) key)))"
proof (induction key chunks i h rule: DefaultHash_loop.induct)
  case (1 key chunks i h)
  show ?case
  proof (cases "i < chunks")
    case True
    then have fit: "4 * i + 4 \<le> length key" using "1.prems" by simp
    from True have n: "chunks - i = Suc (chunks - (i + 1))" by simp
    have d: "drop 4 (drop (4 * i) key) = drop (4 * (i + 1)) key" by (simp add: add.commute)
    have "DefaultHash_loop key chunks i h =
        DefaultHash_loop key chunks (i + 1)
          ((h XOR scast (int32_of (chunk key i))) * 1099511628211)"
      using True fit by (subst DefaultHash_loop.simps) simp
    also have "\<dots> = Inr (foldl (\<lambda>h w. (h XOR word_of_int (sint w)) * 1099511628211)
          ((h XOR scast (int32_of (chunk key i))) * 1099511628211)
          (key_words (chunks - (i + 1)) (drop (4 * (i + 1)) key)))"
      using True fit "1.prems" by (intro "1.IH") simp_all
    finally show ?thesis
      unfolding n key_words.simps d by (simp add: int32_of_chunk [OF fit])
  next
    case False
    with "1.prems" show ?thesis
      by (subst DefaultHash_loop.simps) simp
  qed
qed

lemma DefaultHash_call_fnv:
  "4 * (key_size h div 4) \<le> length key \<Longrightarrow>
   DefaultHash_call h key = Inr (fnv_accumulate_signed (key_words (key_size h div 4) key))"
  by (simp add: DefaultHash_call_def fnv_accumulate_signed_def DefaultHash_loop_fnv)

lemma key_words_take: "key_words n (take (4 * n) k) = key_words n k"
proof (induction n arbitrary: k)
  case 0
  show ?case by simp
next
  case (Suc n)
  have "drop 4 (take (4 * Suc n) k) = take (4 * n) (drop 4 k)"
    by (simp add: drop_take)
  with Suc [of "drop 4 k"] show ?case by (simp add: min_def)
qed

lemma key_words_cong:
  assumes "take (4 * n) k1 = take (4 * n) k2"
  shows "key_words n k1 = key_words n k2"
  using key_words_take [of n k1] key_words_take [of n k2] assms by simp

lemma sign_extension_positive:
  assumes "\<not> bit (w :: 32 word) 31"
  shows "(scast w :: uint64_t) = ucast w"
proof (rule bit_eqI)
  fix n
  have high: "\<not> bit w n" if "31 \<le> n"
  proof (cases "n = 31")
    case True
    with assms show ?thesis by simp
  next
    case False
    with that have "\<not> n < LENGTH(32)" by simp
    then show ?thesis using bit_imp_le_length [of w n] by blast
  qed
  show "bit (scast w :: uint64_t) n \<longleftrightarrow> bit (ucast w :: uint64_t) n"
    using assms high by (cases "n < 31") (auto simp: bit_simps min_def)
qed

lemma fnv_signed_positive:
  assumes "\<forall>w\<in>set ws. \<not> bit w 31"
  shows "fnv_accumulate_signed ws = fnv_accumulate ws"
proof -
  have "foldl (\<lambda>h w. (h XOR word_of_int (sint w)) * 1099511628211) h ws =
        foldl (\<lambda>h w. (h XOR ucast w) * (1099511628211 :: uint64_t)) h ws"
    if "\<forall>w\<in>set ws. \<not> bit w 31" for h
    using that
  proof (induction ws arbitrary: h)
    case Nil
    show ?case by simp
  next
    case (Cons w ws)
    then have "(scast w :: uint64_t) = ucast w" by (simp add: sign_extension_positive)
    with Cons show ?case by simp
  qed
  with assms show ?thesis by (simp add: fnv_accumulate_signed_def fnv_accumulate_def)
qed

text \<open>
  C8.  \<open>ComputeBucket\<close> is a function of the key bytes alone.  On a table with at least
  one bucket, and for a key that holds the bytes of its words, it returns the FNV-style
  accumulation over the 4-byte words of the key (offset basis, then for each word XOR
  and multiply by the prime) reduced modulo the bucket count, where the word that is
  XORed in is extended to 64 bits with its sign; the index is below the bucket count;
  two keys whose bytes agree on these words get the same bucket; and when no word has
  its top bit set the accumulation is the one that XORs the plain word in.
\<close>

theorem ComputeBucket_fnv:
  assumes "0 < num_buckets c" and "4 * (key_size (hash_fn c) div 4) \<le> length key"
  shows "ComputeBucket c key =
           Inr (unat (fnv_accumulate_signed (key_words (key_size (hash_fn c) div 4) key))
                mod num_buckets c)
       \<and> (\<exists>b. ComputeBucket c key = Inr b \<and> b < num_buckets c)
       \<and> (take (4 * (key_size (hash_fn c) div 4)) key' =
            take (4 * (key_size (hash_fn c) div 4)) key
          \<longrightarrow> ComputeBucket c key' = ComputeBucket c key)
       \<and> ((\<forall>w\<in>set (key_words (key_size (hash_fn c) div 4) key). \<not> bit w 31)
          \<longrightarrow> ComputeBucket c key =
                Inr (unat (fnv_accumulate (key_words (key_size (hash_fn c) div 4) key))
                     mod num_buckets c))"
proof -
  let ?n = "key_size (hash_fn c) div 4"
  have 1: "ComputeBucket c key = Inr (unat (fnv_accumulate_signed (key_words ?n key)) mod num_buckets c)"
    using assms by (simp add: ComputeBucket_def DefaultHash_call_fnv)
  have 2: "\<exists>b. ComputeBucket c key = Inr b \<and> b < num_buckets c"
    using assms(1) by (simp add: 1)
  have 3: "ComputeBucket c key' = ComputeBucket c key"
    if eq: "take (4 * ?n) key' = take (4 * ?n) key"
  proof -
    have "length (take (4 * ?n) key') = 4 * ?n" using assms(2) by (simp add: eq)
    then have "4 * ?n \<le> length key'" by simp
    then have "ComputeBucket c key' =
        Inr (unat (fnv_accumulate_signed (key_words ?n key')) mod num_buckets c)"
      using assms(1) by (simp add: ComputeBucket_def DefaultHash_call_fnv)
    with 1 key_words_cong [OF eq] show ?thesis by simp
  qed
  have 4: "ComputeBucket c key = Inr (unat (fnv_accumulate (key_words ?n key)) mod num_buckets c)"
    if "\<forall>w\<in>set (key_words ?n key). \<not> bit w 31"
    using 1 fnv_signed_positive [OF that] by simp
  from 1 2 3 4 show ?thesis by blast
qed

theorem ComputeBucket_fnv_witness:
  "ComputeBucket (HashmapCUDA_new 7 8 4 4 2) [1, 0, 0, 1] =
     Inr (unat (fnv_accumulate_signed [0x01000001]) mod 7)
   \<and> ComputeBucket (HashmapCUDA_new 7 8 4 4 2) [1, 0, 0, 1, 9] =
     ComputeBucket (HashmapCUDA_new 7 8 4 4 2) [1, 0, 0, 1]
   \<and> ComputeBucket (HashmapCUDA_new 7 8 4 4 2) [1, 0, 0, 1] =
     Inr (unat (fnv_accumulate [0x01000001]) mod 7)"
proof -
  let ?c = "HashmapCUDA_new 7 8 4 4 2"
  have w: "key_words (4 div 4) [1, 0, 0, 1] = [0x01000001]"
    by (simp add: word_of_bytes_def)
  have ks: "key_size (hash_fn ?c) = 4" and nb: "num_buckets ?c = 7"
    by (simp_all add: HashmapCUDA_new_def)
  have p1: "0 < num_buckets ?c" by (simp add: nb)
  have p2: "4 * (key_size (hash_fn ?c) div 4) \<le> length [1, 0, 0, 1 :: uint8_t]"
    by (simp add: ks)
  note t = ComputeBucket_fnv [of ?c "[1, 0, 0, 1]" "[1, 0, 0, 1, 9]", OF p1 p2, unfolded ks w nb]
  have eq: "take (4 * (4 div 4)) [1, 0, 0, 1, 9 :: uint8_t] = take (4 * (4 div 4)) [1, 0, 0, 1]"
    by simp
  have pos: "\<forall>w\<in>set [0x01000001 :: 32 word]. \<not> bit w 31" by simp
  from t eq pos show ?thesis by blast
qed

text \<open>
  The key \<open>01 00 00 80\<close> is the word \<open>0x80000001\<close>, whose top bit is set.  On a table
  of 7 buckets \<^verbatim>\<open>ComputeBucket\<close> returns 2, and the accumulation that XORs the plain
  word in gives 5.  On a table constructed with no bucket the remainder is undefined.
\<close>

theorem ComputeBucket_fnv_counterexample:
  "ComputeBucket (HashmapCUDA_new 7 8 4 4 2) [1, 0, 0, 128] = Inr 2
   \<and> unat (fnv_accumulate (key_words (4 div 4) [1, 0, 0, 128])) mod 7 = 5
   \<and> ComputeBucket (HashmapCUDA_new 0 8 4 4 2) [1, 0, 0, 128] = Inl DivisionByZero"
proof -
  have w: "key_words (4 div 4) [1, 0, 0, 128] = [0x80000001]"
    by (simp add: word_of_bytes_def)
  have h: "DefaultHash_call \<lparr>key_size = 4\<rparr> [1, 0, 0, 128] =
      Inr (fnv_accumulate_signed [0x80000001])"
    using DefaultHash_call_fnv [of "\<lparr>key_size = 4\<rparr>" "[1, 0, 0, 128]"] w by simp
  have s: "unat (fnv_accumulate_signed [0x80000001]) mod 7 = 2"
    by (simp add: fnv_accumulate_signed_def)
  have u: "unat (fnv_accumulate [0x80000001]) mod 7 = 5"
    by (simp add: fnv_accumulate_def)
  show ?thesis
    unfolding w using s u by (simp add: ComputeBucket_def HashmapCUDA_new_def h)
qed

section \<open>The key buffer of a round\<close>

lemma length_write_chunk:
  "length ch = 4 \<Longrightarrow> 4 * i + 4 \<le> length ret \<Longrightarrow> length (write_chunk ret i ch) = length ret"
  by (simp add: write_chunk_def)

lemma length_chunk: "4 * i + 4 \<le> length p \<Longrightarrow> length (chunk p i) = 4"
  by (simp add: chunk_def)

lemma WarpSyncKey_loop_in_bounds:
  "4 * chunks \<le> length ret \<Longrightarrow> lane_id < length key_ptrs \<Longrightarrow>
   WarpSyncKey_loop key_ptrs lane_id chunks i ret \<noteq> Inl KeyBufferOverflow \<and>
   (\<forall>r. WarpSyncKey_loop key_ptrs lane_id chunks i ret = Inr r \<longrightarrow> length r = length ret)"
proof (induction key_ptrs lane_id chunks i ret rule: WarpSyncKey_loop.induct)
  case (1 key_ptrs lane_id chunks i ret)
  show ?case
  proof (cases "i < chunks")
    case False
    then show ?thesis by (subst (1 2) WarpSyncKey_loop.simps) simp
  next
    case True
    show ?thesis
    proof (cases "list_ex (\<lambda>k. k = None) key_ptrs \<or> list_ex (\<lambda>k. length (the k) < 4 * i + 4) key_ptrs")
      case True
      with \<open>i < chunks\<close> show ?thesis by (subst (1 2) WarpSyncKey_loop.simps) auto
    next
      case False
      have fit: "4 * i + 4 \<le> length ret" using \<open>i < chunks\<close> "1.prems" by simp
      from False "1.prems" have "\<not> length (the (key_ptrs ! lane_id)) < 4 * i + 4"
        by (auto simp: list_ex_iff)
      then have len: "length (write_chunk ret i (chunk (the (key_ptrs ! lane_id)) i)) = length ret"
        using fit by (simp add: length_write_chunk length_chunk)
      have "WarpSyncKey_loop key_ptrs lane_id chunks i ret =
            WarpSyncKey_loop key_ptrs lane_id chunks (i + 1)
              (write_chunk ret i (chunk (the (key_ptrs ! lane_id)) i))"
        using False \<open>i < chunks\<close> fit by (subst WarpSyncKey_loop.simps) auto
      moreover have "WarpSyncKey_loop key_ptrs lane_id chunks (i + 1)
              (write_chunk ret i (chunk (the (key_ptrs ! lane_id)) i)) \<noteq> Inl KeyBufferOverflow \<and>
            (\<forall>r. WarpSyncKey_loop key_ptrs lane_id chunks (i + 1)
              (write_chunk ret i (chunk (the (key_ptrs ! lane_id)) i)) = Inr r \<longrightarrow>
              length r = length (write_chunk ret i (chunk (the (key_ptrs ! lane_id)) i)))"
        using False \<open>i < chunks\<close> fit "1.prems" len
        by (intro "1.IH") (auto simp: list_ex_iff)
      ultimately show ?thesis using len by simp
    qed
  qed
qed

lemma WarpSyncKey_in_bounds:
  assumes "dsize_key c \<le> MAX_KEY_BYTESIZE" "length ret = MAX_KEY_BYTESIZE" "lane_id < length key_ptrs"
  shows "WarpSyncKey c key_ptrs lane_id ret \<noteq> Inl KeyBufferOverflow \<and>
         (\<forall>r. WarpSyncKey c key_ptrs lane_id ret = Inr r \<longrightarrow> length r = MAX_KEY_BYTESIZE)"
proof -
  have "4 * (dsize_key c div 4) \<le> length ret"
    using assms by simp
  from WarpSyncKey_loop_in_bounds [OF this assms(3), of 0] assms(2)
  show ?thesis by (simp add: WarpSyncKey_def)
qed

lemma collect_no_overflow:
  "(\<And>x. x \<in> set xs \<Longrightarrow> x \<noteq> Inl KeyBufferOverflow) \<Longrightarrow> collect xs \<noteq> Inl KeyBufferOverflow"
  by (induction xs) (auto split: sum.splits)

lemma cmp_step_no_overflow:
  "ret \<noteq> Inl KeyBufferOverflow \<Longrightarrow> cmp_step src dst i ret \<noteq> Inl KeyBufferOverflow"
  by (auto simp: cmp_step_def split: sum.splits)

lemma fold_cmp_step_no_overflow:
  "ret \<noteq> Inl KeyBufferOverflow \<Longrightarrow> fold (cmp_step src dst) is ret \<noteq> Inl KeyBufferOverflow"
  by (induction "is" arbitrary: ret) (auto simp: cmp_step_no_overflow)

lemma cmp_no_overflow: "cmp src dst dsize \<noteq> Inl KeyBufferOverflow"
  by (simp add: cmp_def fold_cmp_step_no_overflow)

lemma is_lane_found_no_overflow: "is_lane_found c key_ptr l p \<noteq> Inl KeyBufferOverflow"
  by (simp add: is_lane_found_def cmp_no_overflow split: option.splits)

lemma WarpFindKey_no_overflow: "WarpFindKey c key_ptr units \<noteq> Inl KeyBufferOverflow"
proof -
  have "collect (map2 (is_lane_found c key_ptr) [0..<WARP_WIDTH] units) \<noteq> Inl KeyBufferOverflow"
    by (rule collect_no_overflow) (auto simp: is_lane_found_no_overflow)
  then show ?thesis
    by (auto simp: WarpFindKey_def split: sum.splits)
qed

lemma read_units_no_overflow: "read_units c b p \<noteq> Inl KeyBufferOverflow"
  by (auto simp: read_units_def split: option.splits)

lemma atomicCAS_no_overflow: "atomicCAS c b p l x y \<noteq> Inl KeyBufferOverflow"
  using read_units_no_overflow [of c b p]
  by (auto simp: atomicCAS_def Let_def split: sum.splits)

lemma dsize_key_write_unit [simp]: "dsize_key (write_unit c b p l v) = dsize_key c"
  by (simp add: write_unit_def)

lemma dsize_key_atomicCAS:
  "atomicCAS c b p l x y = Inr (old, c') \<Longrightarrow> dsize_key c' = dsize_key c"
  by (auto simp: atomicCAS_def Let_def split: sum.splits if_splits)

lemma dsize_key_FreePair [simp]: "dsize_key (FreePair p c) = dsize_key c"
  by (simp add: FreePair_def)

lemma dsize_key_FreeSlab [simp]: "dsize_key (FreeSlab p c) = dsize_key c"
  by (simp add: FreeSlab_def)

lemma dsize_key_AllocateSlab: "AllocateSlab c = (p, c') \<Longrightarrow> dsize_key c' = dsize_key c"
  by (auto simp: AllocateSlab_def split: prod.splits)

lemma ffs_le_length: "ffs m \<le> length m"
proof (cases "True \<in> set m")
  case True
  then have "takeWhile Not m \<noteq> m"
    by (auto simp: takeWhile_eq_all_conv)
  then have "length (takeWhile Not m) \<noteq> length m"
    by (metis takeWhile_eq_take take_all order_refl)
  with length_takeWhile_le [of Not m] True show ?thesis
    by (simp add: ffs_def)
next
  case False
  then show ?thesis by (simp add: ffs_def)
qed

lemma src_lane_bound: "ffs (ballot_sync ACTIVE_LANES_MASK a) - 1 < WARP_WIDTH"
proof -
  have "ffs (ballot_sync ACTIVE_LANES_MASK a) \<le> 32"
    using ffs_le_length [of "ballot_sync ACTIVE_LANES_MASK a"]
    by (simp add: ballot_sync_def ACTIVE_LANES_MASK_def)
  then show ?thesis by (simp add: WARP_WIDTH_def)
qed

lemma begin_round_Inl:
  "begin_round uninit bucket_id key s = Inl e \<Longrightarrow>
   WarpSyncKey (ctx s) key (ffs (ballot_sync ACTIVE_LANES_MASK (lane_active s)) - 1) uninit = Inl e
   \<or> (\<exists>b p. read_units (ctx s) b p = Inl e)
   \<or> (\<exists>k u. WarpFindKey (ctx s) k u = Inl e)"
  unfolding begin_round_def Let_def
  by (auto split: sum.splits)

lemma begin_round_Inr:
  "begin_round uninit bucket_id key s = Inr (r, s1) \<Longrightarrow>
   work_queue r = ballot_sync ACTIVE_LANES_MASK (lane_active s) \<and>
   src_lane r = ffs (work_queue r) - 1 \<and>
   src_bucket r = bucket_id ! src_lane r \<and>
   s1 = s\<lparr>prev_work_queue := work_queue r,
          curr_slab_ptr := (if prev_work_queue s \<noteq> work_queue r then HEAD_SLAB_PTR
                            else curr_slab_ptr s)\<rparr> \<and>
   WarpSyncKey (ctx s) key (src_lane r) uninit = Inr (src_key r) \<and>
   read_units (ctx s) (src_bucket r) (curr_slab_ptr s1) = Inr (unit_data r) \<and>
   WarpFindKey (ctx s) (src_key r) (unit_data r) = Inr (lane_found r)"
  unfolding begin_round_def Let_def
  by (auto split: sum.splits)

lemma begin_round_no_overflow:
  assumes "dsize_key (ctx s) \<le> MAX_KEY_BYTESIZE" "length uninit = MAX_KEY_BYTESIZE"
    "length (key :: uint8_t list option list) = WARP_WIDTH"
  shows "begin_round uninit bucket_id key s \<noteq> Inl KeyBufferOverflow"
proof
  assume "begin_round uninit bucket_id key s = Inl KeyBufferOverflow"
  from begin_round_Inl [OF this]
  show False
    using WarpSyncKey_in_bounds [OF assms(1,2)] src_lane_bound [of "lane_active s"] assms(3)
      read_units_no_overflow WarpFindKey_no_overflow
    by auto
qed

lemma begin_round_ctx: "begin_round uninit bucket_id key s = Inr (r, s1) \<Longrightarrow> ctx s1 = ctx s"
  by (drule begin_round_Inr) (cases s, auto)

lemma Search_body_dsize_key:
  "Search_body uninit bucket_id key s = Inr s' \<Longrightarrow> dsize_key (ctx s') = dsize_key (ctx s)"
  by (auto simp: Search_body_def Search_resolve_def Let_def dest!: begin_round_ctx
      split: sum.splits if_splits)

lemma Insert_resolve_dsize_key:
  "Insert_resolve r s = Inr s' \<Longrightarrow> dsize_key (ctx s') = dsize_key (ctx s)"
  by (auto simp: Insert_resolve_def Let_def dsize_key_atomicCAS dsize_key_AllocateSlab
      split: sum.splits if_splits prod.splits)

lemma Insert_body_dsize_key:
  "Insert_body uninit bucket_id key s = Inr s' \<Longrightarrow> dsize_key (ctx s') = dsize_key (ctx s)"
  by (auto simp: Insert_body_def dest!: begin_round_ctx Insert_resolve_dsize_key
      split: sum.splits)

lemma Remove_resolve_dsize_key:
  "Remove_resolve r s = Inr s' \<Longrightarrow> dsize_key (ctx s') = dsize_key (ctx s)"
  by (auto simp: Remove_resolve_def Let_def dsize_key_atomicCAS
      split: sum.splits if_splits prod.splits)

lemma Remove_body_dsize_key:
  "Remove_body uninit bucket_id key s = Inr s' \<Longrightarrow> dsize_key (ctx s') = dsize_key (ctx s)"
  by (auto simp: Remove_body_def dest!: begin_round_ctx Remove_resolve_dsize_key
      split: sum.splits)

lemma atomicCAS_Inl: "atomicCAS c b p l x y = Inl e \<Longrightarrow> e \<noteq> KeyBufferOverflow"
  using atomicCAS_no_overflow [of c b p l x y] by auto

lemma Insert_resolve_no_overflow: "Insert_resolve r s \<noteq> Inl KeyBufferOverflow"
  by (auto simp: Insert_resolve_def Let_def dest: atomicCAS_Inl
      split: sum.splits prod.splits if_splits)

lemma Remove_resolve_no_overflow: "Remove_resolve r s \<noteq> Inl KeyBufferOverflow"
  by (auto simp: Remove_resolve_def Let_def dest: atomicCAS_Inl
      split: sum.splits prod.splits if_splits)

lemma Search_body_no_overflow:
  assumes "dsize_key (ctx s) \<le> MAX_KEY_BYTESIZE" "length uninit = MAX_KEY_BYTESIZE"
    "length (key :: uint8_t list option list) = WARP_WIDTH"
  shows "Search_body uninit bucket_id key s \<noteq> Inl KeyBufferOverflow"
  using begin_round_no_overflow [OF assms, of bucket_id]
  by (auto simp: Search_body_def split: sum.splits)

lemma Insert_body_no_overflow:
  assumes "dsize_key (ctx s) \<le> MAX_KEY_BYTESIZE" "length uninit = MAX_KEY_BYTESIZE"
    "length (key :: uint8_t list option list) = WARP_WIDTH"
  shows "Insert_body uninit bucket_id key s \<noteq> Inl KeyBufferOverflow"
  using begin_round_no_overflow [OF assms, of bucket_id] Insert_resolve_no_overflow
  by (auto simp: Insert_body_def split: sum.splits)

lemma Remove_body_no_overflow:
  assumes "dsize_key (ctx s) \<le> MAX_KEY_BYTESIZE" "length uninit = MAX_KEY_BYTESIZE"
    "length (key :: uint8_t list option list) = WARP_WIDTH"
  shows "Remove_body uninit bucket_id key s \<noteq> Inl KeyBufferOverflow"
  using begin_round_no_overflow [OF assms, of bucket_id] Remove_resolve_no_overflow
  by (auto simp: Remove_body_def split: sum.splits)

lemma Search_loop_no_overflow:
  "Search_loop uninit bucket_id key s = Some y \<Longrightarrow>
   dsize_key (ctx s) \<le> MAX_KEY_BYTESIZE \<and> length uninit = MAX_KEY_BYTESIZE \<and>
   length key = WARP_WIDTH \<longrightarrow> y \<noteq> Inl KeyBufferOverflow"
proof (rule Search_loop.raw_induct
    [where P = "\<lambda>uninit bucket_id key s y.
       dsize_key (ctx s) \<le> MAX_KEY_BYTESIZE \<and> length uninit = MAX_KEY_BYTESIZE \<and>
       length key = WARP_WIDTH \<longrightarrow> y \<noteq> Inl KeyBufferOverflow"], goal_cases)
  case (1 loop uninit bucket_id key s y)
  show ?case
  proof
    assume a: "dsize_key (ctx s) \<le> MAX_KEY_BYTESIZE \<and> length uninit = MAX_KEY_BYTESIZE \<and>
      length key = WARP_WIDTH"
    show "y \<noteq> Inl KeyBufferOverflow"
    proof (cases "Search_body uninit bucket_id key s")
      case (Inl e)
      with 1(3) Search_body_no_overflow [of s uninit key bucket_id] a show ?thesis
        by (auto split: if_splits)
    next
      case (Inr s')
      with 1(3) have "loop uninit bucket_id key s' = Some y \<or> y = Inr s"
        by (auto split: if_splits)
      then show ?thesis
      proof
        assume "loop uninit bucket_id key s' = Some y"
        from 1(2) [OF this] a Search_body_dsize_key [OF Inr] show ?thesis by simp
      qed simp
    qed
  qed
qed


lemma Insert_loop_no_overflow:
  "Insert_loop uninit bucket_id key s = Some y \<Longrightarrow>
   dsize_key (ctx s) \<le> MAX_KEY_BYTESIZE \<and> length uninit = MAX_KEY_BYTESIZE \<and>
   length key = WARP_WIDTH \<longrightarrow> y \<noteq> Inl KeyBufferOverflow"
proof (rule Insert_loop.raw_induct
    [where P = "\<lambda>uninit bucket_id key s y.
       dsize_key (ctx s) \<le> MAX_KEY_BYTESIZE \<and> length uninit = MAX_KEY_BYTESIZE \<and>
       length key = WARP_WIDTH \<longrightarrow> y \<noteq> Inl KeyBufferOverflow"], goal_cases)
  case (1 loop uninit bucket_id key s y)
  show ?case
  proof
    assume a: "dsize_key (ctx s) \<le> MAX_KEY_BYTESIZE \<and> length uninit = MAX_KEY_BYTESIZE \<and>
      length key = WARP_WIDTH"
    show "y \<noteq> Inl KeyBufferOverflow"
    proof (cases "Insert_body uninit bucket_id key s")
      case (Inl e)
      with 1(3) Insert_body_no_overflow [of s uninit key bucket_id] a show ?thesis
        by (auto split: if_splits)
    next
      case (Inr s')
      with 1(3) have "loop uninit bucket_id key s' = Some y \<or> y = Inr s"
        by (auto split: if_splits)
      then show ?thesis
      proof
        assume "loop uninit bucket_id key s' = Some y"
        from 1(2) [OF this] a Insert_body_dsize_key [OF Inr] show ?thesis by simp
      qed simp
    qed
  qed
qed

lemma Remove_loop_no_overflow:
  "Remove_loop uninit bucket_id key s = Some y \<Longrightarrow>
   dsize_key (ctx s) \<le> MAX_KEY_BYTESIZE \<and> length uninit = MAX_KEY_BYTESIZE \<and>
   length key = WARP_WIDTH \<longrightarrow> y \<noteq> Inl KeyBufferOverflow"
proof (rule Remove_loop.raw_induct
    [where P = "\<lambda>uninit bucket_id key s y.
       dsize_key (ctx s) \<le> MAX_KEY_BYTESIZE \<and> length uninit = MAX_KEY_BYTESIZE \<and>
       length key = WARP_WIDTH \<longrightarrow> y \<noteq> Inl KeyBufferOverflow"], goal_cases)
  case (1 loop uninit bucket_id key s y)
  show ?case
  proof
    assume a: "dsize_key (ctx s) \<le> MAX_KEY_BYTESIZE \<and> length uninit = MAX_KEY_BYTESIZE \<and>
      length key = WARP_WIDTH"
    show "y \<noteq> Inl KeyBufferOverflow"
    proof (cases "Remove_body uninit bucket_id key s")
      case (Inl e)
      with 1(3) Remove_body_no_overflow [of s uninit key bucket_id] a show ?thesis
        by (auto split: if_splits)
    next
      case (Inr s')
      with 1(3) have "loop uninit bucket_id key s' = Some y \<or> y = Inr s"
        by (auto split: if_splits)
      then show ?thesis
      proof
        assume "loop uninit bucket_id key s' = Some y"
        from 1(2) [OF this] a Remove_body_dsize_key [OF Inr] show ?thesis by simp
      qed simp
    qed
  qed
qed

lemma prealloc_one_cases:
  assumes "Allocate (pair_allocator_ctx c) = (p, m)"
  shows "prealloc_one c a k v = Inr (q, c') \<Longrightarrow>
           (\<not> a \<and> q = EMPTY_PAIR_PTR \<and> c' = c) \<or>
           (a \<and> q = p \<and> (\<exists>m'. c' = c\<lparr>pair_allocator_ctx := m'\<rparr>))"
    and "prealloc_one c a k v \<noteq> Inl KeyBufferOverflow"
  using assms
  by (simp_all add: prealloc_one_def Let_def split: if_split_asm option.split_asm option.split)
     blast+


lemma prealloc_one_dsize_key:
  "prealloc_one c a k v = Inr (p, c') \<Longrightarrow> dsize_key c' = dsize_key c"
proof -
  assume r: "prealloc_one c a k v = Inr (p, c')"
  obtain q m where "Allocate (pair_allocator_ctx c) = (q, m)"
    by (cases "Allocate (pair_allocator_ctx c)")
  from prealloc_one_cases(1) [OF this r] show ?thesis by auto
qed

lemma prealloc_one_no_overflow: "prealloc_one c a k v \<noteq> Inl KeyBufferOverflow"
proof -
  obtain q m where "Allocate (pair_allocator_ctx c) = (q, m)"
    by (cases "Allocate (pair_allocator_ctx c)")
  from prealloc_one_cases(2) [OF this] show ?thesis .
qed

lemma prealloc_lanes_no_overflow:
  "prealloc_lanes c as ks vs \<noteq> Inl KeyBufferOverflow \<and>
   (\<forall>ps c'. prealloc_lanes c as ks vs = Inr (ps, c') \<longrightarrow> dsize_key c' = dsize_key c)"
proof (induction as arbitrary: c ks vs)
  case Nil
  show ?case by simp
next
  case (Cons a as)
  show ?case
  proof (cases ks)
    case Nil
    then show ?thesis by simp
  next
    case ks: (Cons k ks')
    show ?thesis
    proof (cases vs)
      case Nil
      with ks show ?thesis by simp
    next
      case vs: (Cons v vs')
      show ?thesis
      proof (cases "prealloc_one c a k v")
        case (Inl e)
        with prealloc_one_no_overflow [of c a k v] ks vs show ?thesis by auto
      next
        case (Inr pc)
        obtain p c1 where pc: "pc = (p, c1)" by (cases pc)
        have d: "dsize_key c1 = dsize_key c"
          using prealloc_one_dsize_key Inr pc by blast
        show ?thesis
        proof (cases "prealloc_lanes c1 as ks' vs'")
          case (Inl e)
          with Cons.IH [of c1 ks' vs'] Inr pc ks vs show ?thesis by auto
        next
          case r: (Inr qc)
          obtain qs c2 where "qc = (qs, c2)" by (cases qc)
          with r Cons.IH [of c1 ks' vs'] Inr pc ks vs d show ?thesis by auto
        qed
      qed
    qed
  qed
qed

text \<open>
  C10.  With a key size of at most \<^verbatim>\<open>MAX_KEY_BYTESIZE\<close> = 32 bytes, the broadcast of the
  leader's key into the 32-byte buffer \<^verbatim>\<open>src_key\<close> never writes past the buffer:
  \<^verbatim>\<open>WarpSyncKey\<close> does not overflow it, and neither \<^verbatim>\<open>Search\<close> nor \<^verbatim>\<open>Insert\<close> nor
  \<^verbatim>\<open>Remove\<close>, which write to the buffer in every round through \<^verbatim>\<open>WarpSyncKey\<close> only,
  ends in that fault.
\<close>

theorem key_broadcast_within_buffer:
  assumes "dsize_key c \<le> MAX_KEY_BYTESIZE"
    and "length uninit = MAX_KEY_BYTESIZE"
    and "length key = WARP_WIDTH"
    and "lane_id < WARP_WIDTH"
  shows "WarpSyncKey c key lane_id uninit \<noteq> Inl KeyBufferOverflow
       \<and> Search c uninit active bucket_id key \<noteq> Some (Inl KeyBufferOverflow)
       \<and> Insert c uninit active bucket_id key val \<noteq> Some (Inl KeyBufferOverflow)
       \<and> Remove c uninit active bucket_id key \<noteq> Some (Inl KeyBufferOverflow)"
proof (intro conjI)
  show "WarpSyncKey c key lane_id uninit \<noteq> Inl KeyBufferOverflow"
    using WarpSyncKey_in_bounds [OF assms(1,2), of lane_id key] assms(3,4) by simp
  show "Search c uninit active bucket_id key \<noteq> Some (Inl KeyBufferOverflow)"
    using Search_loop_no_overflow [of uninit bucket_id key "init_state c active"] assms
    by (auto simp: Search_def init_state_def)
  show "Remove c uninit active bucket_id key \<noteq> Some (Inl KeyBufferOverflow)"
    using Remove_loop_no_overflow [of uninit bucket_id key "init_state c active"] assms
    by (auto simp: Remove_def init_state_def)
  show "Insert c uninit active bucket_id key val \<noteq> Some (Inl KeyBufferOverflow)"
  proof (cases "prealloc_lanes c active key val")
    case (Inl e)
    with prealloc_lanes_no_overflow [of c active key val] show ?thesis
      by (auto simp: Insert_def)
  next
    case (Inr pc)
    obtain ps c' where pc: "pc = (ps, c')" by (cases pc)
    with Inr prealloc_lanes_no_overflow [of c active key val]
    have "dsize_key c' = dsize_key c" by simp
    with Insert_loop_no_overflow
      [of uninit bucket_id key "(init_state c' active)\<lparr>lane_prealloc := ps\<rparr>"] assms Inr pc
    show ?thesis
      by (auto simp: Insert_def init_state_def)
  qed
qed

theorem key_broadcast_within_buffer_witness:
  "WarpSyncKey (HashmapCUDA_new 1 8 32 4 2) (replicate 32 (Some (replicate 32 7))) 0
     (replicate 32 0) \<noteq> Inl KeyBufferOverflow
   \<and> Search (HashmapCUDA_new 1 8 32 4 2) (replicate 32 0) (replicate 32 True) (replicate 32 0)
        (replicate 32 (Some (replicate 32 7))) \<noteq> Some (Inl KeyBufferOverflow)
   \<and> Insert (HashmapCUDA_new 1 8 32 4 2) (replicate 32 0) (replicate 32 True) (replicate 32 0)
        (replicate 32 (Some (replicate 32 7))) (replicate 32 [1, 2, 3, 4])
        \<noteq> Some (Inl KeyBufferOverflow)
   \<and> Remove (HashmapCUDA_new 1 8 32 4 2) (replicate 32 0) (replicate 32 True) (replicate 32 0)
        (replicate 32 (Some (replicate 32 7))) \<noteq> Some (Inl KeyBufferOverflow)"
  using key_broadcast_within_buffer
    [of "HashmapCUDA_new 1 8 32 4 2" "replicate 32 0" "replicate 32 (Some (replicate 32 7))" 0
        "replicate 32 True" "replicate 32 0" "replicate 32 [1, 2, 3, 4]"]
  by (simp add: HashmapCUDA_new_def MAX_KEY_BYTESIZE_def WARP_WIDTH_def)

section \<open>Comparing keys\<close>

lemma cmp_eq:
  "dsize \<le> length src \<Longrightarrow> dsize \<le> length dst \<Longrightarrow>
   cmp src dst dsize = Inr (take dsize src = take dsize dst)"
proof (induction dsize)
  case 0
  show ?case by (simp add: cmp_def)
next
  case (Suc n)
  then have IH: "fold (cmp_step src dst) [0..<n] (Inr True) = Inr (take n src = take n dst)"
    by (simp add: cmp_def)
  have s: "take (Suc n) src = take n src @ [src ! n]" and d: "take (Suc n) dst = take n dst @ [dst ! n]"
    using Suc.prems by (simp_all add: take_Suc_conv_app_nth)
  show ?case
    using Suc.prems by (simp add: cmp_def IH cmp_step_def s d)
qed

section \<open>The first set bit\<close>

lemma ffs_zero: "ffs m = 0 \<longleftrightarrow> True \<notin> set m"
  by (simp add: ffs_def)

lemma ffs_Suc:
  "ffs m = Suc e \<longleftrightarrow> e < length m \<and> m ! e \<and> (\<forall>i<e. \<not> m ! i)"
proof
  assume a: "ffs m = Suc e"
  then have t: "True \<in> set m" and e: "e = length (takeWhile Not m)"
    by (auto simp: ffs_def split: if_splits)
  from t have "takeWhile Not m \<noteq> m"
    by (auto simp: takeWhile_eq_all_conv)
  then have "length (takeWhile Not m) \<noteq> length m"
    by (metis takeWhile_eq_take take_all order_refl)
  with length_takeWhile_le [of Not m] have lt: "e < length m"
    by (simp add: e)
  moreover from nth_length_takeWhile [of Not m] lt have "m ! e"
    by (simp add: e)
  moreover have "\<not> m ! i" if "i < e" for i
  proof -
    from that have l: "i < length (takeWhile Not m)" by (simp add: e)
    then have "takeWhile Not m ! i = m ! i"
      by (rule takeWhile_nth)
    moreover from l have "takeWhile Not m ! i \<in> set (takeWhile Not m)"
      by (rule nth_mem)
    ultimately show ?thesis
      by (metis set_takeWhileD)
  qed
  ultimately show "e < length m \<and> m ! e \<and> (\<forall>i<e. \<not> m ! i)" by blast
next
  assume a: "e < length m \<and> m ! e \<and> (\<forall>i<e. \<not> m ! i)"
  then have t: "True \<in> set m"
    by (metis nth_mem)
  have "e \<le> length (takeWhile Not m)"
    using a by (intro length_takeWhile_less_P_nth) auto
  moreover have "\<not> e < length (takeWhile Not m)"
  proof
    assume l: "e < length (takeWhile Not m)"
    then have "takeWhile Not m ! e = m ! e"
      by (rule takeWhile_nth)
    moreover from l have "takeWhile Not m ! e \<in> set (takeWhile Not m)"
      by (rule nth_mem)
    ultimately show False
      using a by (metis set_takeWhileD)
  qed
  ultimately show "ffs m = Suc e"
    using t by (simp add: ffs_def)
qed

lemma ballot_active: "length a = 32 \<Longrightarrow> ballot_sync ACTIVE_LANES_MASK a = a"
  by (auto simp: ballot_sync_def ACTIVE_LANES_MASK_def list_eq_iff_nth_eq)

lemma first_lane_none: "first_lane P units < 0 \<longleftrightarrow> (\<forall>i<31. \<not> P (units ! i))"
proof -
  have "first_lane P units < 0 \<longleftrightarrow> ffs (map (\<lambda>i. i < 31 \<and> P (units ! i)) [0..<32]) = 0"
    by (simp add: first_lane_def)
  also have "\<dots> \<longleftrightarrow> (\<forall>i<31. \<not> P (units ! i))"
    by (auto simp: ffs_zero)
  finally show ?thesis .
qed

lemma first_lane_some:
  "first_lane P units = int e \<longleftrightarrow> e < 31 \<and> P (units ! e) \<and> (\<forall>i<e. \<not> P (units ! i))"
proof -
  have "first_lane P units = int e \<longleftrightarrow> ffs (map (\<lambda>i. i < 31 \<and> P (units ! i)) [0..<32]) = Suc e"
    by (auto simp: first_lane_def)
  also have "\<dots> \<longleftrightarrow> e < 31 \<and> P (units ! e) \<and> (\<forall>i<e. \<not> P (units ! i))"
    by (auto simp: ffs_Suc)
  finally show ?thesis .
qed

lemma first_lane_cases:
  obtains (none) "first_lane P units = - 1" "\<forall>i<31. \<not> P (units ! i)"
  | (some) e where "first_lane P units = int e" "e < 31" "P (units ! e)" "\<forall>i<e. \<not> P (units ! i)"
proof (cases "first_lane P units < 0")
  case True
  moreover have "first_lane P units \<ge> -1" by (simp add: first_lane_def)
  ultimately have "first_lane P units = -1" by simp
  moreover from True have "\<forall>i<31. \<not> P (units ! i)" by (simp add: first_lane_none)
  ultimately show ?thesis by (rule none)
next
  case False
  then obtain e where "first_lane P units = int e"
    by (metis nonneg_int_cases not_less)
  moreover from this have "e < 31" "P (units ! e)" "\<forall>i<e. \<not> P (units ! i)"
    by (simp_all add: first_lane_some)
  ultimately show ?thesis by (rule some)
qed

lemma map2_upt_nth:
  "length xs = n \<Longrightarrow> map2 f [0..<n] xs = map (\<lambda>i. f i (xs ! i)) [0..<n]"
  by (auto simp: list_eq_iff_nth_eq)

lemma collect_Inr: "collect (map (\<lambda>x. Inr (g x)) xs) = Inr (map g xs)"
  by (induction xs) auto

lemma ballot_pair_mask:
  "ballot_sync PAIR_PTR_LANES_MASK (map (\<lambda>i. i < 31 \<and> Q i) [0..<32]) =
   map (\<lambda>i. i < 31 \<and> Q i) [0..<32]"
  by (auto simp: ballot_sync_def PAIR_PTR_LANES_MASK_def list_eq_iff_nth_eq nth_append)

lemma pair_mask_nth: "i < 32 \<Longrightarrow> PAIR_PTR_LANES_MASK ! i \<longleftrightarrow> i < 31"
  by (auto simp: PAIR_PTR_LANES_MASK_def nth_append)

lemma length_pair_mask: "length PAIR_PTR_LANES_MASK = 32"
  by (simp add: PAIR_PTR_LANES_MASK_def)

lemma WarpFindEmpty_first_lane:
  assumes "length units = 32"
  shows "WarpFindEmpty units = first_lane (\<lambda>p. p = EMPTY_PAIR_PTR) units"
proof -
  have "ballot_sync PAIR_PTR_LANES_MASK (map (\<lambda>ptr. ptr = EMPTY_PAIR_PTR) units) =
        map (\<lambda>i. i < 31 \<and> units ! i = EMPTY_PAIR_PTR) [0..<32]"
    using assms
    by (auto simp: ballot_sync_def list_eq_iff_nth_eq pair_mask_nth length_pair_mask)
  then show ?thesis
    by (simp add: WarpFindEmpty_def first_lane_def)
qed

lemma WarpFindKey_first_lane:
  assumes "units_ok c units" "dsize_key c \<le> length skey"
  shows "WarpFindKey c skey units = Inr (first_lane (matches c skey) units)"
proof -
  have lane: "is_lane_found c skey i (units ! i) = Inr (i < 31 \<and> matches c skey (units ! i))"
    if "i < 32" for i
  proof (cases "i < 31 \<and> units ! i \<noteq> EMPTY_PAIR_PTR")
    case True
    with assms(1) obtain r where r: "pair_data (pair_allocator_ctx c) (units ! i) = Some r"
      "dsize_key c \<le> length r"
      by (auto simp: units_ok_def)
    with True that assms(2) show ?thesis
      by (simp add: is_lane_found_def pair_mask_nth extract_ptr_def cmp_eq matches_def key_of_def)
  next
    case False
    with that show ?thesis
      by (auto simp: is_lane_found_def pair_mask_nth matches_def)
  qed
  have "map2 (is_lane_found c skey) [0..<WARP_WIDTH] units =
        map (\<lambda>i. Inr (i < 31 \<and> matches c skey (units ! i))) [0..<32]"
    using assms(1) lane by (simp add: WARP_WIDTH_def map2_upt_nth units_ok_def)
  then show ?thesis
    by (simp add: WarpFindKey_def collect_Inr ballot_pair_mask first_lane_def)
qed

section \<open>The broadcast key\<close>

lemma nth_write_chunk:
  assumes "4 * i + 4 \<le> length ret" "4 * i + 4 \<le> length k" "j < length ret"
  shows "write_chunk ret i (chunk k i) ! j = (if 4 * i \<le> j \<and> j < 4 * i + 4 then k ! j else ret ! j)"
proof -
  define A where "A = take (4 * i) ret"
  define B where "B = take 4 (drop (4 * i) k)"
  define C where "C = drop (4 * i + 4) ret"
  have lA: "length A = 4 * i" and lB: "length B = 4"
    using assms by (simp_all add: A_def B_def)
  have w: "write_chunk ret i (chunk k i) = A @ B @ C"
    by (simp add: write_chunk_def chunk_def A_def B_def C_def)
  consider "j < 4 * i" | d where "j = 4 * i + d" "d < 4" | d where "j = 4 * i + 4 + d"
  proof -
    have "j < 4 * i \<or> (\<exists>d. j = 4 * i + d \<and> d < 4) \<or> (\<exists>d. j = 4 * i + 4 + d)"
      by presburger
    then show ?thesis using that by blast
  qed
  then show ?thesis
  proof cases
    case 1
    then have "(A @ B @ C) ! j = A ! j" by (simp add: nth_append lA)
    also have "A ! j = ret ! j" using 1 by (simp add: A_def)
    finally show ?thesis using 1 w by simp
  next
    case 2
    have "(A @ B @ C) ! (length A + d) = (B @ C) ! d" by (rule nth_append_length_plus)
    also have "\<dots> = B ! d" using 2 by (simp add: nth_append lB)
    also have "\<dots> = k ! (4 * i + d)" using 2 assms by (simp add: B_def)
    finally show ?thesis using 2 w lA by simp
  next
    case 3
    have "((A @ B) @ C) ! (length (A @ B) + d) = C ! d" by (rule nth_append_length_plus)
    also have "\<dots> = ret ! (4 * i + 4 + d)" using 3 assms by (simp add: C_def)
    finally show ?thesis using 3 w lA lB by simp
  qed
qed

lemma WarpSyncKey_loop_nth:
  assumes "\<forall>k\<in>set ks. k \<noteq> None \<and> 4 * chunks \<le> length (the k)"
    and "4 * chunks \<le> length ret" and "l < length ks" and "i \<le> chunks"
  shows "\<exists>r. WarpSyncKey_loop ks l chunks i ret = Inr r \<and> length r = length ret \<and>
           (\<forall>j<length ret. r ! j = (if 4 * i \<le> j \<and> j < 4 * chunks then the (ks ! l) ! j
                                    else ret ! j))"
  using assms
proof (induction ks l chunks i ret rule: WarpSyncKey_loop.induct)
  case (1 ks l chunks i ret)
  show ?case
  proof (cases "i < chunks")
    case False
    with "1.prems" show ?thesis
      by (subst WarpSyncKey_loop.simps) auto
  next
    case True
    let ?k = "the (ks ! l)"
    let ?ret = "write_chunk ret i (chunk ?k i)"
    have "ks ! l \<in> set ks" using "1.prems" by simp
    then have kl: "4 * chunks \<le> length ?k" using "1.prems" by blast
    have fit: "4 * i + 4 \<le> length ret" "4 * i + 4 \<le> length ?k"
      using True "1.prems"(2) kl by linarith+
    have len: "length ?ret = length ret"
      using fit by (simp add: length_write_chunk length_chunk)
    have n1: "\<not> list_ex (\<lambda>k. k = None) ks" and n2: "\<not> list_ex (\<lambda>k. length (the k) < 4 * i + 4) ks"
      using "1.prems" True by (auto simp: list_ex_iff)
    have step: "WarpSyncKey_loop ks l chunks i ret = WarpSyncKey_loop ks l chunks (i + 1) ?ret"
      using True n1 n2 fit by (subst WarpSyncKey_loop.simps) simp
    from "1.IH" [OF True n1 n2] fit "1.prems" True len
    obtain r where r: "WarpSyncKey_loop ks l chunks (i + 1) ?ret = Inr r" "length r = length ret"
      "\<forall>j<length ret. r ! j = (if 4 * (i + 1) \<le> j \<and> j < 4 * chunks then ?k ! j else ?ret ! j)"
      by auto
    have "r ! j = (if 4 * i \<le> j \<and> j < 4 * chunks then ?k ! j else ret ! j)" if "j < length ret" for j
      using r(3) that True nth_write_chunk [OF fit that] by auto
    with r step show ?thesis by simp
  qed
qed

lemma WarpSyncKey_result:
  assumes "dsize_key c mod 4 = 0" "dsize_key c \<le> MAX_KEY_BYTESIZE"
    and "length uninit = MAX_KEY_BYTESIZE"
    and "\<forall>k\<in>set key. k \<noteq> None \<and> dsize_key c \<le> length (the k)"
    and "l < length key"
  shows "\<exists>skey. WarpSyncKey c key l uninit = Inr skey \<and> length skey = MAX_KEY_BYTESIZE \<and>
           take (dsize_key c) skey = take (dsize_key c) (the (key ! l))"
proof -
  have d: "4 * (dsize_key c div 4) = dsize_key c" using assms(1) by presburger
  from WarpSyncKey_loop_nth [of key "dsize_key c div 4" uninit l 0] assms d
  obtain r where r: "WarpSyncKey c key l uninit = Inr r" "length r = length uninit"
    "\<forall>j<length uninit. r ! j = (if j < dsize_key c then the (key ! l) ! j else uninit ! j)"
    by (auto simp: WarpSyncKey_def)
  have "take (dsize_key c) r = take (dsize_key c) (the (key ! l))"
    using r assms by (auto intro!: nth_take_lemma)
  with r assms show ?thesis by simp
qed

lemma WarpSyncKey_no_chunks:
  "dsize_key c < 4 \<Longrightarrow> WarpSyncKey c key l uninit = Inr uninit"
  by (simp add: WarpSyncKey_def WarpSyncKey_loop.simps)

lemma matches_cong:
  "take (dsize_key c) skey = take (dsize_key c) k \<Longrightarrow> matches c skey = matches c k"
  by (auto simp: matches_def fun_eq_iff)

section \<open>Bucket chains\<close>

lemma cursor_simps [simp]: "cursor ps 0 = HEAD_SLAB_PTR" "cursor ps (Suc j) = ps ! j"
  by (simp_all add: cursor_def)


lemma length_bucket_slabs [simp]: "length (bucket_slabs c b ps) = Suc (length ps)"
  by (simp add: bucket_slabs_def)

lemma read_units_chain:
  assumes "wf_chain c b ps" "j \<le> length ps"
  shows "read_units c b (cursor ps j) = Inr (slab_of c b (cursor ps j))"
proof (cases j)
  case 0
  with assms show ?thesis by (simp add: read_units_def slab_of_def wf_chain_def)
next
  case (Suc i)
  with assms have "ps ! i \<in> set ps" by simp
  with assms have "ps ! i \<noteq> HEAD_SLAB_PTR" "slab_data (slab_list_allocator_ctx c) (ps ! i) \<noteq> None"
    by (auto simp: wf_chain_def)
  with Suc show ?thesis by (auto simp: read_units_def slab_of_def)
qed

lemma chain_units_ok: "wf_chain c b ps \<Longrightarrow> j \<le> length ps \<Longrightarrow> units_ok c (slab_of c b (cursor ps j))"
  by (simp add: wf_chain_def)

lemma chain_next:
  "wf_chain c b ps \<Longrightarrow> j \<le> length ps \<Longrightarrow>
   slab_of c b (cursor ps j) ! NEXT_SLAB_PTR_LANE = (if j < length ps then cursor ps (Suc j) else EMPTY_SLAB_PTR)"
  by (simp add: wf_chain_def NEXT_SLAB_PTR_LANE_def)


section \<open>The round of the leader\<close>

lemma leader_ffs: "leader a l \<Longrightarrow> ffs (ballot_sync ACTIVE_LANES_MASK a) = Suc l"
  by (simp add: leader_def ballot_active ffs_Suc)

lemma leader_nonzero: "leader a l \<Longrightarrow> nonzero (ballot_sync ACTIVE_LANES_MASK a)"
  by (auto simp: leader_def ballot_active nonzero_def in_set_conv_nth)

lemma leader_exists:
  assumes "length a = 32" "True \<in> set a"
  shows "\<exists>l. leader a l"
proof -
  from assms(2) have "ffs a \<noteq> 0" by (simp add: ffs_zero)
  then obtain e where "ffs a = Suc e" by (cases "ffs a") auto
  with assms(1) show ?thesis by (auto simp: ffs_Suc leader_def)
qed


lemma begin_round_eval:
  assumes "leader (lane_active s) l"
    and "WarpSyncKey (ctx s) key l uninit = Inr skey" "dsize_key (ctx s) \<le> length skey"
    and "cur = (if prev_work_queue s \<noteq> lane_active s then HEAD_SLAB_PTR else curr_slab_ptr s)"
    and "read_units (ctx s) (bucket_id ! l) cur = Inr units" "units_ok (ctx s) units"
  shows "begin_round uninit bucket_id key s =
           Inr (\<lparr>work_queue = lane_active s, src_lane = l, src_bucket = bucket_id ! l,
                 src_key = skey, unit_data = units,
                 lane_found = first_lane (matches (ctx s) skey) units\<rparr>,
                s\<lparr>prev_work_queue := lane_active s, curr_slab_ptr := cur\<rparr>)"
proof -
  have b: "ballot_sync ACTIVE_LANES_MASK (lane_active s) = lane_active s"
    using assms(1) by (simp add: leader_def ballot_active)
  have f: "ffs (lane_active s) = Suc l"
    using leader_ffs [OF assms(1)] b by simp
  show ?thesis
    using assms(2-) WarpFindKey_first_lane [OF assms(6,3)]
    by (simp add: begin_round_def Let_def b f)
qed

section \<open>The walk of a search request\<close>

lemma at_cursor_cur:
  "at_cursor s ps j \<Longrightarrow>
   (if prev_work_queue s \<noteq> lane_active s then HEAD_SLAB_PTR else curr_slab_ptr s) = cursor ps j"
  by (auto simp: at_cursor_def)



section \<open>All requests of a warp: Search\<close>




section \<open>The walk of an insert request\<close>

lemma atomicCAS_eval:
  "read_units c b cur = Inr u \<Longrightarrow>
   atomicCAS c b cur e x v = Inr (u ! e, if u ! e = x then write_unit c b cur e v else c)"
  by (simp add: atomicCAS_def Let_def)

lemma Insert_body_eval:
  assumes "leader (lane_active s) l"
    and "WarpSyncKey (ctx s) key l uninit = Inr skey" "dsize_key (ctx s) \<le> length skey"
    and "cur = (if prev_work_queue s \<noteq> lane_active s then HEAD_SLAB_PTR else curr_slab_ptr s)"
    and "read_units (ctx s) (bucket_id ! l) cur = Inr units" "units_ok (ctx s) units"
  shows "Insert_body uninit bucket_id key s =
           Insert_resolve
             \<lparr>work_queue = lane_active s, src_lane = l, src_bucket = bucket_id ! l,
              src_key = skey, unit_data = units,
              lane_found = first_lane (matches (ctx s) skey) units\<rparr>
             (s\<lparr>prev_work_queue := lane_active s, curr_slab_ptr := cur\<rparr>)"
  by (simp add: Insert_body_def begin_round_eval [OF assms])





section \<open>Writes to a slab\<close>


lemma write_unit_fields [simp]:
  "pair_allocator_ctx (write_unit c b cur e v) = pair_allocator_ctx c"
  "num_buckets (write_unit c b cur e v) = num_buckets c"
  "dsize_value (write_unit c b cur e v) = dsize_value c"
  "hash_fn (write_unit c b cur e v) = hash_fn c"
  "length (bucket_list_head (write_unit c b cur e v)) = length (bucket_list_head c)"
  "slab_free (slab_list_allocator_ctx (write_unit c b cur e v)) = slab_free (slab_list_allocator_ctx c)"
  "slab_pool (slab_list_allocator_ctx (write_unit c b cur e v)) = slab_pool (slab_list_allocator_ctx c)"
  by (simp_all add: write_unit_def)


lemma FreePair_fields [simp]:
  "num_buckets (FreePair p c) = num_buckets c"
  "dsize_value (FreePair p c) = dsize_value c"
  "hash_fn (FreePair p c) = hash_fn c"
  "bucket_list_head (FreePair p c) = bucket_list_head c"
  "slab_list_allocator_ctx (FreePair p c) = slab_list_allocator_ctx c"
  "pair_data (pair_allocator_ctx (FreePair p c)) = pair_data (pair_allocator_ctx c)"
  "pair_free (pair_allocator_ctx (FreePair p c)) = p # pair_free (pair_allocator_ctx c)"
  by (simp_all add: FreePair_def Free_def)




lemma first_lane_cong:
  "(\<And>i. i < 31 \<Longrightarrow> P (u ! i) = Q (v ! i)) \<Longrightarrow> first_lane P u = first_lane Q v"
proof -
  assume a: "\<And>i. i < 31 \<Longrightarrow> P (u ! i) = Q (v ! i)"
  have "map (\<lambda>i. i < 31 \<and> P (u ! i)) [0..<32] = map (\<lambda>i. i < 31 \<and> Q (v ! i)) [0..<32]"
    by (rule map_cong) (auto simp: a)
  then show ?thesis
    unfolding first_lane_def by (rule arg_cong [where f = "\<lambda>m. int (ffs m) - 1"])
qed

lemma first_lane_next [simp]: "first_lane P (u[31 := q]) = first_lane P u"
  by (rule first_lane_cong) simp





section \<open>Chains under writes\<close>


lemma cursor_append_last [simp]: "cursor (ps @ [q]) (Suc (length ps)) = q"
  by simp

lemma cursor_in_chain: "0 < j \<Longrightarrow> j \<le> length ps \<Longrightarrow> cursor ps j \<in> set ps"
  by (cases j) simp_all



lemma cursor_data:
  "wf_chain c b ps \<Longrightarrow> j \<le> length ps \<Longrightarrow>
   cursor ps j \<noteq> HEAD_SLAB_PTR \<longrightarrow> slab_data (slab_list_allocator_ctx c) (cursor ps j) \<noteq> None"
  using cursor_in_chain [of j ps] by (cases "j = 0") (auto simp: wf_chain_def)




section \<open>A request that extends the chain\<close>







section \<open>A request that never ends\<close>

lemma Insert_loop_diverges:
  assumes inv: "\<And>s. Q s \<Longrightarrow> nonzero (ballot_sync ACTIVE_LANES_MASK (lane_active s)) \<and>
                   (\<exists>s'. Insert_body uninit bucket_id key s = Inr s' \<and> Q s')"
    and "Q s"
  shows "Insert_loop uninit bucket_id key s = None"
proof -
  have "Insert_loop u b k s = Some y \<Longrightarrow> u = uninit \<and> b = bucket_id \<and> k = key \<longrightarrow> \<not> Q s"
    for u b k s y
  proof (rule Insert_loop.raw_induct
      [where P = "\<lambda>u b k s y. u = uninit \<and> b = bucket_id \<and> k = key \<longrightarrow> \<not> Q s"], goal_cases)
    case (1 loop u b k s y)
    show ?case
    proof (intro impI notI)
      assume eq: "u = uninit \<and> b = bucket_id \<and> k = key" and "Q s"
      from inv [OF \<open>Q s\<close>] obtain s' where
        nz: "nonzero (ballot_sync ACTIVE_LANES_MASK (lane_active s))"
        and b: "Insert_body uninit bucket_id key s = Inr s'" and q: "Q s'"
        by blast
      from 1(3) nz b eq have "loop u b k s' = Some y" by simp
      from 1(2) [OF this] eq q show False by simp
    qed
  qed
  with assms(2) have "Insert_loop uninit bucket_id key s \<noteq> Some y" for y by blast
  then show ?thesis by (cases "Insert_loop uninit bucket_id key s") auto
qed

lemma write_unit_same:
  assumes "slab_of c b cur ! e = v" "e < length (slab_of c b cur)"
    and "cur = HEAD_SLAB_PTR \<longrightarrow> b < length (bucket_list_head c)"
    and "cur \<noteq> HEAD_SLAB_PTR \<longrightarrow> slab_data (slab_list_allocator_ctx c) cur \<noteq> None"
  shows "write_unit c b cur e v = c"
proof (cases "cur = HEAD_SLAB_PTR")
  case True
  with assms have "(bucket_list_head c ! b)[e := v] = bucket_list_head c ! b"
    by (simp add: slab_of_def list_update_same_conv)
  with True show ?thesis by (simp add: write_unit_def)
next
  case False
  with assms obtain u where u: "slab_data (slab_list_allocator_ctx c) cur = Some u" by auto
  with assms False have "u[e := v] = u" by (simp add: slab_of_def list_update_same_conv)
  with u have "(slab_data (slab_list_allocator_ctx c))
      (cur := map_option (\<lambda>units. units[e := v]) (slab_data (slab_list_allocator_ctx c) cur))
      = slab_data (slab_list_allocator_ctx c)"
    by (simp add: fun_upd_idem)
  with False show ?thesis by (simp add: write_unit_def)
qed

text \<open>
  With no free slab, \<^verbatim>\<open>AllocateSlab\<close> returns the sentinel, the compare-and-swap writes the
  sentinel over the sentinel, and the round leaves the warp where it was.
\<close>

lemma Insert_stuck:
  assumes wf: "wf_chain (ctx s) (bucket_id ! l) ps"
    and ld: "leader (lane_active s) l"
    and sync: "WarpSyncKey (ctx s) key l uninit = Inr skey" "dsize_key (ctx s) \<le> length skey"
    and pos: "at_cursor s ps (length ps)"
    and none: "first_lane (matches (ctx s) skey)
                 (slab_of (ctx s) (bucket_id ! l) (cursor ps (length ps))) < 0"
      "first_lane (\<lambda>q. q = EMPTY_PAIR_PTR)
                 (slab_of (ctx s) (bucket_id ! l) (cursor ps (length ps))) < 0"
    and free: "slab_free (slab_list_allocator_ctx (ctx s)) = []"
  shows "Insert_loop uninit bucket_id key s = None"
proof -
  let ?b = "bucket_id ! l"
  let ?cur = "cursor ps (length ps)"
  define Q where "Q s \<longleftrightarrow>
      wf_chain (ctx s) ?b ps \<and> leader (lane_active s) l \<and>
      WarpSyncKey (ctx s) key l uninit = Inr skey \<and> dsize_key (ctx s) \<le> length skey \<and>
      at_cursor s ps (length ps) \<and>
      first_lane (matches (ctx s) skey) (slab_of (ctx s) ?b ?cur) < 0 \<and>
      first_lane (\<lambda>q. q = EMPTY_PAIR_PTR) (slab_of (ctx s) ?b ?cur) < 0 \<and>
      slab_free (slab_list_allocator_ctx (ctx s)) = []" for s
  have "nonzero (ballot_sync ACTIVE_LANES_MASK (lane_active s)) \<and>
        (\<exists>s'. Insert_body uninit bucket_id key s = Inr s' \<and> Q s')" if "Q s" for s
  proof -
    let ?u = "slab_of (ctx s) ?b ?cur"
    from that have wf: "wf_chain (ctx s) ?b ps" and ld: "leader (lane_active s) l"
      and sync: "WarpSyncKey (ctx s) key l uninit = Inr skey" "dsize_key (ctx s) \<le> length skey"
      and pos: "at_cursor s ps (length ps)"
      and none: "first_lane (matches (ctx s) skey) ?u < 0"
        "first_lane (\<lambda>q. q = EMPTY_PAIR_PTR) ?u < 0"
      and free: "slab_free (slab_list_allocator_ctx (ctx s)) = []"
      by (simp_all add: Q_def)
    have rd: "read_units (ctx s) ?b ?cur = Inr ?u" and ok: "units_ok (ctx s) ?u"
      using wf by (simp_all add: read_units_chain chain_units_ok)
    have len: "length ?u = 32" using ok by (simp add: units_ok_def)
    have nx: "?u ! NEXT_SLAB_PTR_LANE = EMPTY_SLAB_PTR"
      using chain_next [OF wf order_refl] by simp
    have al: "AllocateSlab (ctx s) = (EMPTY_SLAB_PTR, ctx s)"
      using free by (simp add: AllocateSlab_def WarpAllocate_def)
    have same: "write_unit (ctx s) ?b ?cur NEXT_SLAB_PTR_LANE EMPTY_SLAB_PTR = ctx s"
      using nx len wf cursor_data [OF wf order_refl]
      by (intro write_unit_same) (simp_all add: NEXT_SLAB_PTR_LANE_def wf_chain_def)
    let ?s = "s\<lparr>prev_work_queue := lane_active s, curr_slab_ptr := ?cur\<rparr>"
    have body: "Insert_body uninit bucket_id key s =
        Insert_resolve
          \<lparr>work_queue = lane_active s, src_lane = l, src_bucket = ?b, src_key = skey,
           unit_data = ?u, lane_found = first_lane (matches (ctx s) skey) ?u\<rparr> ?s"
      using Insert_body_eval [OF ld sync at_cursor_cur [OF pos, symmetric] rd ok] .
    have "Insert_body uninit bucket_id key s = Inr ?s"
      using none nx
      by (simp add: body Insert_resolve_def Let_def WarpFindEmpty_first_lane [OF len]
          al atomicCAS_eval [OF rd] same)
    moreover have "Q ?s" using that by (simp add: Q_def at_cursor_def)
    ultimately show ?thesis using leader_nonzero [OF ld] by blast
  qed
  moreover have "Q s" using assms by (simp add: Q_def)
  ultimately show ?thesis by (rule Insert_loop_diverges [where Q = Q])
qed

section \<open>One request of Insert\<close>



section \<open>The tables the operations keep\<close>


lemma dsize_key_FreePair_pair [simp]: "dsize_key (FreePair p c) = dsize_key c"
  by (simp add: FreePair_def)





lemma link_slab_pair [simp]:
  "pair_allocator_ctx (link_slab c b ps) = pair_allocator_ctx c"
  "num_buckets (link_slab c b ps) = num_buckets c"
  "dsize_key (link_slab c b ps) = dsize_key c"
  "dsize_value (link_slab c b ps) = dsize_value c"
  "hash_fn (link_slab c b ps) = hash_fn c"
  by (simp_all add: link_slab_def AllocateSlab_def split: prod.splits)

lemma insert_req_ctx_fields [simp]:
  "num_buckets (insert_req_ctx c ps b skey p) = num_buckets c"
  "dsize_key (insert_req_ctx c ps b skey p) = dsize_key c"
  "dsize_value (insert_req_ctx c ps b skey p) = dsize_value c"
  "hash_fn (insert_req_ctx c ps b skey p) = hash_fn c"
  "pair_data (pair_allocator_ctx (insert_req_ctx c ps b skey p)) = pair_data (pair_allocator_ctx c)"
  by (simp_all add: insert_req_ctx_def split: plan.splits)



lemma insert_req_ctx_slab_free_keep:
  "insert_req_plan c ps b skey \<noteq> Grow \<Longrightarrow>
   slab_free (slab_list_allocator_ctx (insert_req_ctx c ps b skey p)) =
     slab_free (slab_list_allocator_ctx c)"
  by (simp add: insert_req_ctx_def split: plan.splits)


section \<open>The requests of a warp, one leader after the other\<close>


section \<open>All requests of a warp: Insert\<close>







section \<open>The eager allocation of Insert\<close>


lemma store_pair_fields [simp]:
  "num_buckets (store_pair c p k v) = num_buckets c"
  "dsize_key (store_pair c p k v) = dsize_key c"
  "dsize_value (store_pair c p k v) = dsize_value c"
  "hash_fn (store_pair c p k v) = hash_fn c"
  "bucket_list_head (store_pair c p k v) = bucket_list_head c"
  "slab_list_allocator_ctx (store_pair c p k v) = slab_list_allocator_ctx c"
  "pair_free (pair_allocator_ctx (store_pair c p k v)) = tl (pair_free (pair_allocator_ctx c))"
  by (simp_all add: store_pair_def)



lemma popc_Cons [simp]: "popc (a # as) = (if a then Suc (popc as) else popc as)"
  by (simp add: popc_def)

lemma popc_Nil [simp]: "popc [] = 0"
  by (simp add: popc_def)





section \<open>The device function Insert\<close>



lemma init_state_fields [simp]:
  "ctx (init_state c a) = c" "lane_active (init_state c a) = a"
  "lane_iterator (init_state c a) = replicate 32 NULL_ITERATOR"
  "lane_mask (init_state c a) = replicate 32 False"
  "lane_prealloc (init_state c a) = replicate 32 EMPTY_PAIR_PTR"
  "prev_work_queue (init_state c a) = replicate 32 False"
  by (simp_all add: init_state_def WARP_WIDTH_def)



section \<open>The arguments a kernel passes to the device functions\<close>

lemma length_lane_tids [simp]: "length (lane_tids w) = 32"
  by (simp add: lane_tids_def WARP_WIDTH_def)

lemma nth_lane_tids [simp]: "i < 32 \<Longrightarrow> lane_tids w ! i = w * 32 + i"
  by (simp add: lane_tids_def WARP_WIDTH_def)

lemma kernel_lengths [simp]:
  "length (kernel_active n w) = 32" "length (kernel_keys uninit c keys n w) = 32"
  "length (kernel_vals c vals n w) = 32" "length (kernel_buckets c keys n w) = 32"
  by (simp_all add: kernel_active_def kernel_keys_def kernel_vals_def kernel_buckets_def)







lemma popc_append [simp]: "popc (xs @ ys) = popc xs + popc ys"
  by (simp add: popc_def)



section \<open>The kernel of Insert for one warp\<close>




section \<open>The warps of a launch\<close>


section \<open>The output of a launch\<close>









section \<open>A batch of Insert\<close>



section \<open>The table after construction\<close>







lemma HashmapCUDA_new_fields [simp]:
  "num_buckets (HashmapCUDA_new nb cap dk dv sc) = nb"
  "dsize_key (HashmapCUDA_new nb cap dk dv sc) = dk"
  "dsize_value (HashmapCUDA_new nb cap dk dv sc) = dv"
  "hash_fn (HashmapCUDA_new nb cap dk dv sc) = \<lparr>key_size = dk\<rparr>"
  "length (slab_free (slab_list_allocator_ctx (HashmapCUDA_new nb cap dk dv sc))) = sc"
  "length (pair_free (pair_allocator_ctx (HashmapCUDA_new nb cap dk dv sc))) = cap"
  by (simp_all add: HashmapCUDA_new_def)

section \<open>A pair store with no free record\<close>




section \<open>A batch of Search\<close>






section \<open>The walk of a remove request\<close>



section \<open>All requests of a warp: Remove\<close>








section \<open>A batch of Remove\<close>






section \<open>Batches that do not complete\<close>







section \<open>Batch calls run to completion\<close>




section \<open>A pool that runs out\<close>




end
